theory Spec2Isabelle
  imports Complex_Main "HOL-Library.Word" "HOL-Library.Multiset" "HOL-Library.Log_Nat"
begin

unbundle bit_operations_syntax

section \<open>Errors raised by the Python code\<close>

text \<open>
  Every \<^verbatim>\<open>assert\<close> that fails is an \<open>AssertionError\<close>; a \<^verbatim>\<open>raise ValueError\<close>, a NumPy
  broadcasting failure, a matrix product or a \<^verbatim>\<open>vstack\<close> of incompatible shapes and
  \<^verbatim>\<open>argmin\<close> of an empty array are a \<open>ValueError\<close>; an index out of range is an
  \<open>IndexError\<close>; \<^verbatim>\<open>reduce\<close> of an empty list without initial value is a \<open>TypeError\<close>.
  A computation that may raise returns \<open>error + 'a\<close>, and \<open>ebind\<close> sequences two of them.
\<close>

datatype error = AssertionError | ValueError | IndexError | TypeError

definition ebind :: "error + 'a \<Rightarrow> ('a \<Rightarrow> error + 'b) \<Rightarrow> error + 'b" where
  "ebind m f = (case m of Inl e \<Rightarrow> Inl e | Inr x \<Rightarrow> f x)"

fun emap :: "('a \<Rightarrow> error + 'b) \<Rightarrow> 'a list \<Rightarrow> error + 'b list" where
  "emap f [] = Inr []"
| "emap f (x # xs) = ebind (f x) (\<lambda>y. ebind (emap f xs) (\<lambda>ys. Inr (y # ys)))"

fun efoldl :: "('b \<Rightarrow> 'a \<Rightarrow> error + 'b) \<Rightarrow> 'b \<Rightarrow> 'a list \<Rightarrow> error + 'b" where
  "efoldl f a [] = Inr a"
| "efoldl f a (x # xs) = ebind (f a x) (\<lambda>b. efoldl f b xs)"

section \<open>Canonical ordering of Majorana modes: \<^verbatim>\<open>bubble_sort_maj\<close>\<close>

text \<open>
  \<^verbatim>\<open>sign_dict = {0: +1, 1: -1}\<close>, looked up at \<^verbatim>\<open>swap_counter % 2\<close>.
\<close>

definition sign_dict :: "nat \<Rightarrow> int" where
  "sign_dict k = (if k = 0 then 1 else - 1)"

text \<open>
  One iteration of the inner loop, at index \<open>j\<close>: the state is the array, the flag
  \<^verbatim>\<open>swapped\<close> and \<^verbatim>\<open>swap_counter\<close>.
\<close>

definition inner_step :: "nat \<Rightarrow> nat list \<times> bool \<times> nat \<Rightarrow> nat list \<times> bool \<times> nat" where
  "inner_step j s =
     (case s of (arr, swapped, swap_counter) \<Rightarrow>
        if arr ! j > arr ! (j + 1)
        then (arr[j := arr ! (j + 1), j + 1 := arr ! j], True, swap_counter + 1)
        else (arr, swapped, swap_counter))"

text \<open>\<^verbatim>\<open>for j in range(0, n_sites - i - 1)\<close>, entered with \<^verbatim>\<open>swapped = False\<close>.\<close>

definition inner_loop :: "nat \<Rightarrow> nat list \<Rightarrow> nat \<Rightarrow> nat list \<times> bool \<times> nat" where
  "inner_loop m arr swap_counter = fold inner_step [0..<m] (arr, False, swap_counter)"

text \<open>\<^verbatim>\<open>for i in range(n_sites)\<close>, left early by \<^verbatim>\<open>break\<close> after a pass without a swap.\<close>

function outer_loop :: "nat \<Rightarrow> nat \<Rightarrow> nat list \<Rightarrow> nat \<Rightarrow> nat list \<times> nat" where
  "outer_loop i n_sites arr swap_counter =
     (if i < n_sites
      then (case inner_loop (n_sites - i - 1) arr swap_counter of
              (arr', swapped, swap_counter') \<Rightarrow>
                if \<not> swapped then (arr', swap_counter')
                else outer_loop (i + 1) n_sites arr' swap_counter')
      else (arr, swap_counter))"
  by pat_completeness auto
termination
  by (relation "measure (\<lambda>(i, n_sites, arr, swap_counter). n_sites - i)") auto

declare outer_loop.simps [simp del]

definition swap_count :: "nat list \<Rightarrow> nat" where
  "swap_count array = snd (outer_loop 0 (length array) array 0)"

definition bubble_sort_maj :: "nat list \<Rightarrow> nat list \<times> int" where
  "bubble_sort_maj array =
     (case outer_loop 0 (length array) array 0 of
        (arr, swap_counter) \<Rightarrow> (arr, sign_dict (swap_counter mod 2)))"

text \<open>
  The number of inversions of a list: the pairs of positions \<open>i < j\<close> holding
  \<open>xs ! i > xs ! j\<close>. It is defined without reference to any sorting procedure.
\<close>

fun inversions :: "nat list \<Rightarrow> nat" where
  "inversions [] = 0"
| "inversions (x # xs) = length (filter (\<lambda>y. y < x) xs) + inversions xs"


section \<open>Floating-point arithmetic of the coefficients\<close>

text \<open>
  The coefficients are \<^verbatim>\<open>complex128\<close>: a pair of IEEE 754 binary64 numbers. A finite binary64
  number is a real number, and the model keeps the coefficients in the type \<open>complex\<close>, with the
  machine operations written out: every addition and multiplication is the exact result
  rounded to the nearest binary64 number, ties to the even significand. Infinities, NaN and
  the sign of zero are not represented, so a result beyond the largest binary64 number is
  outside the model.

  \<open>fl_exponent a\<close> is the \<open>e\<close> with \<open>2^e \<le> a < 2^(e+1)\<close> for \<open>a > 0\<close>.
\<close>

definition pow2 :: "int \<Rightarrow> real" where
  "pow2 e = (if 0 \<le> e then 2 ^ nat e else 1 / 2 ^ nat (- e))"

definition fl_exponent :: "real \<Rightarrow> int" where
  "fl_exponent a = (if 1 \<le> a then bitlen \<lfloor>a\<rfloor> - 1 else - bitlen (\<lceil>1 / a\<rceil> - 1))"

definition round_half_even :: "real \<Rightarrow> int" where
  "round_half_even q =
     (let f = \<lfloor>q\<rfloor>; d = q - of_int f
      in if d < 1 / 2 then f else if 1 / 2 < d then f + 1 else if even f then f else f + 1)"

text \<open>
  Rounding to binary64: 53 significant bits, and below \<open>2^-1022\<close> the fixed spacing
  \<open>2^-1074\<close> of the subnormal numbers.
\<close>

definition rnd :: "real \<Rightarrow> real" where
  "rnd x = (if x = 0 then 0
            else let u = pow2 (max (fl_exponent \<bar>x\<bar>) (- 1022) - 52)
                 in of_int (round_half_even (x / u)) * u)"

text \<open>The binary64 numbers, and the \<^verbatim>\<open>complex128\<close> numbers.\<close>

definition is_double :: "real \<Rightarrow> bool" where
  "is_double x = (rnd x = x)"

definition is_c128 :: "complex \<Rightarrow> bool" where
  "is_c128 z = (is_double (Re z) \<and> is_double (Im z))"

definition fl_add :: "real \<Rightarrow> real \<Rightarrow> real" where
  "fl_add a b = rnd (a + b)"

definition fl_sub :: "real \<Rightarrow> real \<Rightarrow> real" where
  "fl_sub a b = rnd (a - b)"

definition fl_mul :: "real \<Rightarrow> real \<Rightarrow> real" where
  "fl_mul a b = rnd (a * b)"

text \<open>
  Complex addition and subtraction work on the two parts; complex multiplication is
  \<^verbatim>\<open>(ar*br - ai*bi) + (ar*bi + ai*br)j\<close> with every operation rounded.
\<close>

definition c_add :: "complex \<Rightarrow> complex \<Rightarrow> complex" where
  "c_add x y = Complex (fl_add (Re x) (Re y)) (fl_add (Im x) (Im y))"

definition c_sub :: "complex \<Rightarrow> complex \<Rightarrow> complex" where
  "c_sub x y = Complex (fl_sub (Re x) (Re y)) (fl_sub (Im x) (Im y))"

definition c_mul :: "complex \<Rightarrow> complex \<Rightarrow> complex" where
  "c_mul x y = Complex (fl_sub (fl_mul (Re x) (Re y)) (fl_mul (Im x) (Im y)))
                       (fl_add (fl_mul (Re x) (Im y)) (fl_mul (Im x) (Re y)))"

text \<open>
  \<^verbatim>\<open>abs\<close> of a \<^verbatim>\<open>complex128\<close> is the C function \<^verbatim>\<open>hypot\<close> of its parts: \<^verbatim>\<open>hypot(x, 0)\<close> is
  \<open>|x|\<close> exactly, and otherwise the model takes the correctly rounded value.
\<close>

definition c_abs :: "complex \<Rightarrow> real" where
  "c_abs z = (if Im z = 0 then \<bar>Re z\<bar> else if Re z = 0 then \<bar>Im z\<bar>
              else rnd (sqrt ((Re z)\<^sup>2 + (Im z)\<^sup>2)))"

subsection \<open>\<^verbatim>\<open>np.add\<close> as a reduction\<close>

text \<open>
  NumPy adds the elements of a \<^verbatim>\<open>complex128\<close> array with its pairwise summation: fewer than
  four elements are added one after the other to zero; up to 64 elements go into four
  accumulators, element \<open>i\<close> into accumulator \<open>i mod 4\<close>, as long as a whole block of four is
  left, the accumulators are added as \<open>(r0 + r1) + (r2 + r3)\<close> and the elements left over are
  added one after the other; a longer array is split in two parts, the first a multiple of
  four elements long, and the two sums are added.
\<close>

fun block_loop :: "complex list \<Rightarrow> complex list \<Rightarrow> complex list \<times> complex list" where
  "block_loop r xs = (if 4 \<le> length xs then block_loop (map2 c_add r (take 4 xs)) (drop 4 xs)
                      else (r, xs))"

declare block_loop.simps [simp del]

function pairwise_sum :: "complex list \<Rightarrow> complex" where
  "pairwise_sum xs =
     (if length xs < 4 then foldl c_add 0 xs
      else if length xs \<le> 64 then
        (case block_loop (take 4 xs) (drop 4 xs) of
           (r, rest) \<Rightarrow> foldl c_add (c_add (c_add (r ! 0) (r ! 1)) (c_add (r ! 2) (r ! 3))) rest)
      else
        (let n2 = (length xs - length xs mod 8) div 2
         in c_add (pairwise_sum (take n2 xs)) (pairwise_sum (drop n2 xs))))"
  by pat_completeness auto
termination
  by (relation "measure length") auto

declare pairwise_sum.simps [simp del]

text \<open>
  A reduction with \<^verbatim>\<open>np.add\<close> (\<^verbatim>\<open>reduce\<close>, and each segment of \<^verbatim>\<open>reduceat\<close>) starts from the
  first element and adds the pairwise sum of the others to it; a single element is copied.
\<close>

fun np_add_reduce :: "complex list \<Rightarrow> complex" where
  "np_add_reduce [] = 0"
| "np_add_reduce [x] = x"
| "np_add_reduce (x # y # ys) = c_add x (pairwise_sum (y # ys))"

subsection \<open>Functions of the C library\<close>

text \<open>
  The values of \<^verbatim>\<open>cpow\<close>, \<^verbatim>\<open>cos\<close> and \<^verbatim>\<open>sin\<close> are those of the C library NumPy is built
  with. They are parameters of the model, and nothing is assumed of them.
\<close>

record libm =
  libm_cpow :: "complex \<Rightarrow> nat \<Rightarrow> complex"
  libm_cos :: "real \<Rightarrow> real"
  libm_sin :: "real \<Rightarrow> real"

text \<open>
  A library whose functions return the exact values: an instance of the parameter for the
  closed examples, none of which calls the library.
\<close>

definition exact_libm :: libm where
  "exact_libm = \<lparr>libm_cpow = (\<lambda>a k. a ^ k), libm_cos = cos, libm_sin = sin\<rparr>"

text \<open>
  \<^verbatim>\<open>a ** k\<close> for a \<^verbatim>\<open>complex128\<close> \<open>a\<close> and an integer \<open>k \<ge> 0\<close> (\<^verbatim>\<open>npy_cpow\<close>): 1 for \<open>k = 0\<close>;
  \<open>a\<close>, \<open>a*a\<close>, \<open>a*(a*a)\<close> for \<open>k\<close> up to 3; below 100 the binary powering loop, which multiplies
  the result by the current square for every set bit of \<open>k\<close>; from 100 on the C library's
  \<^verbatim>\<open>cpow\<close>.
\<close>

function powering_loop :: "nat \<Rightarrow> nat \<Rightarrow> complex \<Rightarrow> complex \<Rightarrow> complex" where
  "powering_loop n msk aa p =
     (if msk = 0 then aa
      else let aa' = (if odd (n div msk) then c_mul aa p else aa)
           in if n < 2 * msk then aa' else powering_loop n (2 * msk) aa' (c_mul p p))"
  by pat_completeness auto
termination
  by (relation "measure (\<lambda>(n, msk, aa, p). Suc n - msk)") auto

declare powering_loop.simps [simp del]

definition np_cpow :: "libm \<Rightarrow> complex \<Rightarrow> nat \<Rightarrow> complex" where
  "np_cpow m a k =
     (if k = 0 then 1
      else if a = 0 then 0
      else if k = 1 then a
      else if k = 2 then c_mul a a
      else if k = 3 then c_mul a (c_mul a a)
      else if k < 100 then powering_loop k 1 1 a
      else libm_cpow m a k)"


section \<open>NumPy arrays\<close>

text \<open>
  The symplectic matrices hold only the integers 0 and 1 (\<^verbatim>\<open>PauliwordOp.__init__\<close> asserts
  it, and it is the invariant of the data model), so an entry is a \<open>bool\<close>: \<open>True\<close> is 1.
  A two-dimensional array is its number of columns \<^verbatim>\<open>shape[1]\<close> together with the list of
  its rows, since an array without rows still has a width.
\<close>

type_synonym 'a matrix = "nat \<times> 'a list list"

definition ncols :: "'a matrix \<Rightarrow> nat" where
  "ncols M = fst M"

definition mrows :: "'a matrix \<Rightarrow> 'a list list" where
  "mrows M = snd M"

definition shape0 :: "'a matrix \<Rightarrow> nat" where
  "shape0 M = length (mrows M)"

definition wf_matrix :: "'a matrix \<Rightarrow> bool" where
  "wf_matrix M = list_all (\<lambda>r. length r = ncols M) (mrows M)"

text \<open>A one-dimensional array \<^verbatim>\<open>v\<close> reshaped to \<^verbatim>\<open>[1, len(v)]\<close>.\<close>

definition reshape_row :: "'a list \<Rightarrow> 'a matrix" where
  "reshape_row v = (length v, [v])"

text \<open>
  Broadcasting of two dimensions: equal, or one of them 1; anything else raises.
  \<open>bc_to n xs\<close> stretches an axis of length 1 to length \<open>n\<close>.
\<close>

definition bc_dim :: "nat \<Rightarrow> nat \<Rightarrow> error + nat" where
  "bc_dim a b = (if a = b then Inr a else if a = 1 then Inr b else if b = 1 then Inr a
                 else Inl ValueError)"

definition bc_to :: "nat \<Rightarrow> 'a list \<Rightarrow> 'a list" where
  "bc_to n xs = (if length xs = n then xs else replicate n (hd xs))"

definition np_binop1 :: "('a \<Rightarrow> 'b \<Rightarrow> 'c) \<Rightarrow> 'a list \<Rightarrow> 'b list \<Rightarrow> error + 'c list" where
  "np_binop1 f xs ys =
     ebind (bc_dim (length xs) (length ys)) (\<lambda>n. Inr (map2 f (bc_to n xs) (bc_to n ys)))"

definition np_binop2 :: "('a \<Rightarrow> 'b \<Rightarrow> 'c) \<Rightarrow> 'a matrix \<Rightarrow> 'b matrix \<Rightarrow> error + 'c matrix" where
  "np_binop2 f A B =
     ebind (bc_dim (shape0 A) (shape0 B)) (\<lambda>k.
     ebind (bc_dim (ncols A) (ncols B)) (\<lambda>w.
       Inr (w, map2 (\<lambda>r s. map2 f (bc_to w r) (bc_to w s))
                 (bc_to k (mrows A)) (bc_to k (mrows B)))))"

definition vstack :: "'a matrix \<Rightarrow> 'a matrix \<Rightarrow> error + 'a matrix" where
  "vstack A B = (if ncols A \<noteq> ncols B then Inl ValueError
                 else Inr (ncols A, mrows A @ mrows B))"

text \<open>Indexing with a boolean mask: the mask must be as long as the axis.\<close>

definition np_mask :: "'a list \<Rightarrow> bool list \<Rightarrow> error + 'a list" where
  "np_mask xs msk = (if length msk \<noteq> length xs then Inl IndexError
                     else Inr (map fst (filter snd (zip xs msk))))"

text \<open>\<^verbatim>\<open>sum(axis=1)\<close> of a row of 0/1 entries.\<close>

definition count_true :: "bool list \<Rightarrow> nat" where
  "count_true r = length (filter (\<lambda>b. b) r)"

subsection \<open>The pieces of \<^verbatim>\<open>cleanup\<close>\<close>

text \<open>
  \<^verbatim>\<open>1 << np.arange(w)[::-1]\<close> is an \<^verbatim>\<open>int64\<close> array: NumPy's left shift gives 0 once the shift
  reaches the width of the type, which is what \<open>push_bit\<close> on a 64-bit word does. The product
  \<^verbatim>\<open>symp_matrix @ weights\<close> wraps around in \<^verbatim>\<open>int64\<close>.
\<close>

definition weights :: "nat \<Rightarrow> 64 word list" where
  "weights w = map (\<lambda>e. push_bit e 1) (rev [0..<w])"

definition row_key :: "nat \<Rightarrow> bool list \<Rightarrow> 64 word" where
  "row_key w r = sum_list (map2 (\<lambda>b wt. of_bool b * wt) r (weights w))"

text \<open>
  \<^verbatim>\<open>np.argsort\<close> of signed 64-bit keys. Among equal keys the order NumPy leaves is that of
  its sorting routine; the model keeps the original order (a stable sort).
\<close>

definition argsort :: "64 word list \<Rightarrow> nat list" where
  "argsort ks = sort_key (\<lambda>i. sint (ks ! i)) [0..<length ks]"

text \<open>The lengths of the runs of equal adjacent elements.\<close>

function run_lengths :: "'a list \<Rightarrow> nat list" where
  "run_lengths [] = []"
| "run_lengths (x # xs) =
     Suc (length (takeWhile (\<lambda>y. y = x) xs)) # run_lengths (dropWhile (\<lambda>y. y = x) xs)"
  by pat_completeness auto
termination
  by (relation "measure length") (auto simp: length_dropWhile_le less_Suc_eq_le)

text \<open>
  \<^verbatim>\<open>np.unique(a, return_counts=True)[1]\<close>: the array is sorted, then the runs are counted.
\<close>

definition unique_counts :: "64 word list \<Rightarrow> nat list" where
  "unique_counts a = run_lengths (sort_key sint a)"

fun cumsum_from :: "nat \<Rightarrow> nat list \<Rightarrow> nat list" where
  "cumsum_from a [] = []"
| "cumsum_from a (x # xs) = (a + x) # cumsum_from (a + x) xs"

text \<open>\<^verbatim>\<open>np.append([0], np.cumsum(counts))[:-1]\<close>\<close>

definition row_summing_of :: "nat list \<Rightarrow> nat list" where
  "row_summing_of counts = butlast (0 # cumsum_from 0 counts)"

text \<open>
  \<^verbatim>\<open>np.add.reduceat(a, idx)\<close>: entry \<open>i\<close> is the reduction of \<^verbatim>\<open>a[idx[i]:idx[i+1]]\<close>, of
  \<^verbatim>\<open>a[idx[i]:]\<close> for the last index, and \<^verbatim>\<open>a[idx[i]]\<close> where \<^verbatim>\<open>idx[i] >= idx[i+1]\<close>.
  \<^verbatim>\<open>cleanup\<close> only passes indices inside the array.
\<close>

definition reduceat :: "complex list \<Rightarrow> nat list \<Rightarrow> complex list" where
  "reduceat a idx =
     map (\<lambda>i. if i + 1 < length idx
               then (if idx ! i < idx ! (i + 1)
                     then np_add_reduce (take (idx ! (i + 1) - idx ! i) (drop (idx ! i) a))
                     else a ! (idx ! i))
               else np_add_reduce (drop (idx ! i) a))
         [0..<length idx]"

text \<open>
  The part shared by \<^verbatim>\<open>PauliwordOp.cleanup\<close> and \<^verbatim>\<open>MajoranaOp.cleanup\<close>: the rows sorted by
  their integer key, one row kept for each distinct key, the coefficients of each run added.
\<close>

definition reduce_rows :: "bool matrix \<Rightarrow> complex list \<Rightarrow> bool matrix \<times> complex list" where
  "reduce_rows M coeffs =
     (let int_list = map (row_key (ncols M)) (mrows M);
          re_order_indices = argsort int_list;
          sorted_int_list = map (\<lambda>i. int_list ! i) re_order_indices;
          sorted_symp_matrix = map (\<lambda>i. mrows M ! i) re_order_indices;
          sorted_coeff_vec = map (\<lambda>i. coeffs ! i) re_order_indices;
          row_summing = row_summing_of (unique_counts sorted_int_list)
      in ((ncols M, map (\<lambda>i. sorted_symp_matrix ! i) row_summing),
          reduceat sorted_coeff_vec row_summing))"

subsection \<open>What \<^verbatim>\<open>cleanup\<close> computes\<close>

text \<open>
  The coefficients, in the order of the rows, of the rows equal to the bit-vector \<open>v\<close>.
\<close>

definition coeffs_of :: "bool list list \<Rightarrow> complex list \<Rightarrow> bool list \<Rightarrow> complex list" where
  "coeffs_of rs cs v = map snd (filter (\<lambda>p. fst p = v) (zip rs cs))"

text \<open>
  Merging the runs of equal keys in a list of (key, row, coefficient): the first row of
  each run with the reduction of the coefficients of the run.
\<close>

function merge_runs :: "('k \<times> 'r \<times> complex) list \<Rightarrow> ('r \<times> complex) list" where
  "merge_runs [] = []"
| "merge_runs (t # ts) =
     (fst (snd t),
      np_add_reduce (snd (snd t) # map (\<lambda>u. snd (snd u)) (takeWhile (\<lambda>u. fst u = fst t) ts)))
     # merge_runs (dropWhile (\<lambda>u. fst u = fst t) ts)"
  by pat_completeness auto
termination
  by (relation "measure length") (auto simp: length_dropWhile_le less_Suc_eq_le)

text \<open>The first index of each run, from the lengths of the runs.\<close>

fun starts :: "nat \<Rightarrow> nat list \<Rightarrow> nat list" where
  "starts a [] = []"
| "starts a (c # cs) = a # starts (a + c) cs"


section \<open>Operators in the symplectic representation\<close>

text \<open>
  Both classes keep a symplectic matrix and a coefficient vector; \<^verbatim>\<open>n_terms\<close>,
  \<^verbatim>\<open>n_qubits\<close> and \<^verbatim>\<open>n_sites\<close> are set by the constructors from the shape of the matrix.
  The constructor argument \<^verbatim>\<open>phase_factors_included\<close> of \<^verbatim>\<open>MajoranaOp\<close> is only read while
  the object is built.
\<close>

record symplectic_op =
  symp_matrix :: "bool matrix"
  coeff_vec :: "complex list"

definition n_terms :: "symplectic_op \<Rightarrow> nat" where
  "n_terms P = shape0 (symp_matrix P)"

text \<open>
  The invariant both constructors establish: a rectangular matrix with one coefficient
  for each row.
\<close>

definition wf_op :: "symplectic_op \<Rightarrow> bool" where
  "wf_op P = (wf_matrix (symp_matrix P) \<and> length (coeff_vec P) = n_terms P)"

section \<open>\<^verbatim>\<open>PauliwordOp\<close>\<close>

definition n_qubits :: "symplectic_op \<Rightarrow> nat" where
  "n_qubits P = ncols (symp_matrix P) div 2"

definition X_block :: "symplectic_op \<Rightarrow> bool matrix" where
  "X_block P = (n_qubits P, map (take (n_qubits P)) (mrows (symp_matrix P)))"

definition Z_block :: "symplectic_op \<Rightarrow> bool matrix" where
  "Z_block P = (ncols (symp_matrix P) - n_qubits P, map (drop (n_qubits P)) (mrows (symp_matrix P)))"

text \<open>\<^verbatim>\<open>PauliwordOp(operator, coeff_vec)\<close> for a two-dimensional array.\<close>

definition PauliwordOp :: "bool matrix \<Rightarrow> complex list \<Rightarrow> error + symplectic_op" where
  "PauliwordOp operator coeffs =
     (if shape0 operator \<noteq> length coeffs then Inl AssertionError
      else Inr \<lparr>symp_matrix = operator, coeff_vec = coeffs\<rparr>)"

definition string_to_symplectic :: "string \<Rightarrow> nat \<Rightarrow> error + bool list" where
  "string_to_symplectic pauli_str n =
     (if length pauli_str \<noteq> n then Inl AssertionError
      else if \<not> set pauli_str \<subseteq> {CHR ''I'', CHR ''X'', CHR ''Y'', CHR ''Z''} then Inl AssertionError
      else Inr (map (\<lambda>c. c = CHR ''X'' \<or> c = CHR ''Y'') pauli_str
                @ map (\<lambda>c. c = CHR ''Z'' \<or> c = CHR ''Y'') pauli_str))"

text \<open>\<^verbatim>\<open>PauliwordOp(operator, coeff_vec)\<close> for a list of Pauli strings.\<close>

definition PauliwordOp_strings :: "string list \<Rightarrow> complex list \<Rightarrow> error + symplectic_op" where
  "PauliwordOp_strings operator_list coeffs =
     (case operator_list of
        [] \<Rightarrow> Inl IndexError
      | s # _ \<Rightarrow>
          ebind (emap (\<lambda>p. string_to_symplectic p (length s)) operator_list) (\<lambda>rs.
            PauliwordOp (2 * length s, rs) coeffs))"

definition symplectic_to_string_char :: "bool \<Rightarrow> bool \<Rightarrow> char" where
  "symplectic_to_string_char x z =
     (if x \<and> z then CHR ''Y'' else if x then CHR ''X'' else if z then CHR ''Z'' else CHR ''I'')"

definition Y_count :: "symplectic_op \<Rightarrow> error + nat list" where
  "Y_count P = ebind (np_binop2 (\<and>) (X_block P) (Z_block P)) (\<lambda>Y_coords.
                 Inr (map count_true (mrows Y_coords)))"

definition multiply_single_Pword_phaseless :: "symplectic_op \<Rightarrow> symplectic_op \<Rightarrow> error + symplectic_op" where
  "multiply_single_Pword_phaseless P Pword =
     ebind (np_binop2 (\<noteq>) (symp_matrix P) (symp_matrix Pword)) (\<lambda>pauli_mult_phaseless.
       PauliwordOp pauli_mult_phaseless (replicate (n_terms P) 1))"

text \<open>
  \<^verbatim>\<open>sign_change\<close> is an integer array, which the product with the complex array converts;
  the two compensations are \<^verbatim>\<open>complex128\<close> powers, and every product is a \<^verbatim>\<open>complex128\<close>
  multiplication, from left to right.
\<close>

definition multiply_single_Pword :: "libm \<Rightarrow> symplectic_op \<Rightarrow> symplectic_op \<Rightarrow> error + symplectic_op" where
  "multiply_single_Pword m P Pword =
     ebind (multiply_single_Pword_phaseless P Pword) (\<lambda>phaseless_prod_Pword.
     if n_terms Pword \<noteq> 1 then Inl AssertionError else
     ebind (np_binop2 (\<and>) (X_block P) (Z_block Pword)) (\<lambda>flips.
     let sign_change = map (\<lambda>r. (- 1 :: int) ^ count_true r) (mrows flips) in
     ebind (Y_count P) (\<lambda>ya.
     ebind (Y_count Pword) (\<lambda>yb.
     ebind (np_binop1 (+) ya yb) (\<lambda>full_Y_count.
     let sigma_tau_compensation = map (np_cpow m (- \<i>)) full_Y_count in
     ebind (Y_count phaseless_prod_Pword) (\<lambda>yp.
     let tau_sigma_compensation = map (np_cpow m \<i>) yp in
     ebind (np_binop1 (\<lambda>s x. c_mul (of_int s) x) sign_change sigma_tau_compensation) (\<lambda>ph.
     ebind (np_binop1 c_mul ph tau_sigma_compensation) (\<lambda>phase_mod.
     ebind (np_binop1 c_mul phase_mod (coeff_vec P)) (\<lambda>pc.
     ebind (np_binop1 c_mul pc (coeff_vec Pword)) (\<lambda>new_coeff_vec.
       PauliwordOp (symp_matrix phaseless_prod_Pword) new_coeff_vec))))))))))"

definition PauliwordOp_cleanup :: "symplectic_op \<Rightarrow> error + symplectic_op" where
  "PauliwordOp_cleanup P =
     (case reduce_rows (symp_matrix P) (coeff_vec P) of
        (reduced_symplectic_matrix, reduced_coeff_vec) \<Rightarrow>
          PauliwordOp reduced_symplectic_matrix reduced_coeff_vec)"

text \<open>
  The default \<^verbatim>\<open>zero_threshold=1e-15\<close>: the binary64 number nearest to \<open>10^-15\<close>, which is
  \<open>2535301200456459 / 2^101\<close>.
\<close>

definition zero_threshold :: real where
  "zero_threshold = 2535301200456459 / 2 ^ 101"

definition cleanup_zeros :: "symplectic_op \<Rightarrow> error + symplectic_op" where
  "cleanup_zeros P =
     ebind (PauliwordOp_cleanup P) (\<lambda>clean_operator.
       let mask_nonzero = map (\<lambda>c. c_abs c > zero_threshold) (coeff_vec clean_operator) in
       ebind (np_mask (mrows (symp_matrix clean_operator)) mask_nonzero) (\<lambda>rs.
       ebind (np_mask (coeff_vec clean_operator) mask_nonzero) (\<lambda>cs.
         PauliwordOp (ncols (symp_matrix clean_operator), rs) cs)))"

definition PauliwordOp_add :: "symplectic_op \<Rightarrow> symplectic_op \<Rightarrow> error + symplectic_op" where
  "PauliwordOp_add P Pword =
     (if n_qubits P \<noteq> n_qubits Pword then Inl AssertionError
      else ebind (vstack (symp_matrix P) (symp_matrix Pword)) (\<lambda>P_symp_mat_new.
           ebind (PauliwordOp P_symp_mat_new (coeff_vec P @ coeff_vec Pword)) PauliwordOp_cleanup))"

text \<open>
  \<^verbatim>\<open>__mul__\<close>: one product for each term of \<^verbatim>\<open>Pword\<close>, then
  \<^verbatim>\<open>reduce(lambda x,y: x+y, P_updated_list)\<close>, which adds nothing when there is one product.
\<close>

definition PauliwordOp_mul :: "libm \<Rightarrow> symplectic_op \<Rightarrow> symplectic_op \<Rightarrow> error + symplectic_op" where
  "PauliwordOp_mul m P Pword =
     (if n_qubits P \<noteq> n_qubits Pword then Inl AssertionError
      else ebind (emap (\<lambda>(Pvec_single, coeff_single).
                          ebind (PauliwordOp (reshape_row Pvec_single) [coeff_single])
                                (multiply_single_Pword m P))
                       (zip (mrows (symp_matrix Pword)) (coeff_vec Pword))) (\<lambda>P_updated_list.
           case P_updated_list of
             [] \<Rightarrow> Inl TypeError
           | x # xs \<Rightarrow> efoldl PauliwordOp_add x xs))"

text \<open>\<^verbatim>\<open>__getitem__\<close> at an integer key that is not negative.\<close>

definition getitem :: "symplectic_op \<Rightarrow> nat \<Rightarrow> error + symplectic_op" where
  "getitem P key =
     (if \<not> key < n_terms P then Inl AssertionError
      else if \<not> key < length (coeff_vec P) then Inl IndexError
      else PauliwordOp (reshape_row (mrows (symp_matrix P) ! key)) [coeff_vec P ! key])"

definition multiply_by_constant :: "symplectic_op \<Rightarrow> complex \<Rightarrow> error + symplectic_op" where
  "multiply_by_constant P const = PauliwordOp (symp_matrix P) (map (\<lambda>c. c_mul c const) (coeff_vec P))"

text \<open>
  \<^verbatim>\<open>commutes_termwise\<close>: \<^verbatim>\<open>(self.symp_matrix @ hstack((Pword.Z_block, Pword.X_block)).T) % 2 == 0\<close>.
  The matrix product needs the two widths to agree.
\<close>

definition PauliwordOp_commutes_termwise :: "symplectic_op \<Rightarrow> symplectic_op \<Rightarrow> error + bool list list" where
  "PauliwordOp_commutes_termwise P Pword =
     (if n_qubits P \<noteq> n_qubits Pword then Inl AssertionError
      else if ncols (symp_matrix P) \<noteq> ncols (symp_matrix Pword) then Inl ValueError
      else Inr (map (\<lambda>a. map (\<lambda>p. even (count_true (map2 (\<and>) a
                                  (drop (n_qubits Pword) p @ take (n_qubits Pword) p))))
                              (mrows (symp_matrix Pword)))
                    (mrows (symp_matrix P))))"

definition commutes :: "symplectic_op \<Rightarrow> symplectic_op \<Rightarrow> error + bool" where
  "commutes P Pword = ebind (PauliwordOp_commutes_termwise P Pword) (\<lambda>C. Inr (list_all (list_all (\<lambda>b. b)) C))"

text \<open>
  \<^verbatim>\<open>_rotate_by_single_Pword\<close>. The angle is \<open>None\<close> or a binary64 number; \<^verbatim>\<open>np.cos\<close> and
  \<^verbatim>\<open>np.sin\<close> are the functions of the C library.
\<close>

definition rotate_by_single_Pword :: "libm \<Rightarrow> symplectic_op \<Rightarrow> symplectic_op \<Rightarrow> real option \<Rightarrow> error + symplectic_op" where
  "rotate_by_single_Pword m P Pword angle =
     (if n_terms Pword \<noteq> 1 then Inl AssertionError
      else case coeff_vec Pword of
        [] \<Rightarrow> Inl IndexError
      | c0 # cs \<Rightarrow>
         (let Pword_copy = (if c0 \<noteq> 1 then Pword\<lparr>coeff_vec := 1 # cs\<rparr> else Pword) in
          ebind (PauliwordOp_commutes_termwise P Pword_copy) (\<lambda>C.
          let commute_vec = concat C in
          ebind (np_mask (mrows (symp_matrix P)) commute_vec) (\<lambda>commute_symp.
          ebind (np_mask (coeff_vec P) commute_vec) (\<lambda>commute_coeff.
          ebind (np_mask (mrows (symp_matrix P)) (map Not commute_vec)) (\<lambda>anticommute_symp.
          ebind (np_mask (coeff_vec P) (map Not commute_vec)) (\<lambda>anticommute_coeff.
          ebind (PauliwordOp (ncols (symp_matrix P), commute_symp) commute_coeff) (\<lambda>commute_self.
          ebind (PauliwordOp (ncols (symp_matrix P), anticommute_symp) anticommute_coeff) (\<lambda>anticom_self.
          ebind (case angle of
                   None \<Rightarrow>
                     ebind (PauliwordOp_mul m anticom_self Pword_copy) (\<lambda>prod.
                       multiply_by_constant prod (- \<i>))
                 | Some t \<Rightarrow>
                     ebind (multiply_by_constant anticom_self (complex_of_real (libm_cos m t))) (\<lambda>a1.
                     ebind (PauliwordOp_mul m anticom_self Pword_copy) (\<lambda>prod.
                     ebind (multiply_by_constant prod (c_mul (- \<i>) (complex_of_real (libm_sin m t)))) (\<lambda>a2.
                       PauliwordOp_add a1 a2)))) (\<lambda>anticom_part.
            PauliwordOp_add commute_self anticom_part))))))))))"

section \<open>\<^verbatim>\<open>StabilizerOp\<close>\<close>

text \<open>
  A \<^verbatim>\<open>StabilizerOp\<close> is a \<^verbatim>\<open>PauliwordOp\<close> whose constructor has checked the coefficients
  and the independence of the rows; the checks leave the matrix and the coefficients as
  they are.
  \<^verbatim>\<open>update_sector\<close>: \<^verbatim>\<open>self.coeff_vec = (-1)**np.count_nonzero(self.Z_block & ref_state, axis=1)\<close>.
  The reference state is an array of integers; the bitwise and of a matrix entry (0 or 1)
  with an integer is not zero exactly when the entry is 1 and the integer is odd.
\<close>

definition update_sector :: "symplectic_op \<Rightarrow> int list \<Rightarrow> error + symplectic_op" where
  "update_sector S ref_state =
     ebind (np_binop2 (\<lambda>z r. z \<and> odd r) (Z_block S) (reshape_row ref_state)) (\<lambda>Zr.
       Inr (S\<lparr>coeff_vec := map (\<lambda>r. (- 1) ^ count_true r) (mrows Zr)\<rparr>))"


text \<open>
  The phase of the product of two single Pauli terms \<open>a\<close> and \<open>b\<close> on \<open>n\<close> qubits as the
  specification words it: the sign \<open>(-1)^mismatch\<close> with \<open>mismatch = popcount(X_a AND Z_b)\<close>,
  the forward phase \<open>(-i)^(Ya + Yb)\<close> and the backward phase \<open>i^(Y of a XOR b)\<close>.
\<close>

definition y_positions :: "nat \<Rightarrow> bool list \<Rightarrow> nat" where
  "y_positions n a = count_true (map2 (\<and>) (take n a) (drop n a))"

definition spec_phase :: "nat \<Rightarrow> bool list \<Rightarrow> bool list \<Rightarrow> complex" where
  "spec_phase n a b =
     (- 1) ^ count_true (map2 (\<and>) (take n a) (drop n b))
     * (- \<i>) ^ (y_positions n a + y_positions n b)
     * \<i> ^ y_positions n (map2 (\<noteq>) a b)"

text \<open>
  The phase as \<^verbatim>\<open>_multiply_single_Pword\<close> computes it for the rows \<open>a\<close> and \<open>b\<close>:
  \<^verbatim>\<open>sign_change * sigma_tau_compensation * tau_sigma_compensation\<close>.
\<close>

definition machine_phase :: "libm \<Rightarrow> nat \<Rightarrow> bool list \<Rightarrow> bool list \<Rightarrow> complex" where
  "machine_phase m n a b =
     c_mul (c_mul (of_int ((- 1) ^ count_true (map2 (\<and>) (take n a) (drop n b))))
                  (np_cpow m (- \<i>) (y_positions n a + y_positions n b)))
           (np_cpow m \<i> (y_positions n (map2 (\<noteq>) a b)))"

section \<open>\<^verbatim>\<open>MajoranaOp\<close>\<close>

definition n_sites :: "symplectic_op \<Rightarrow> nat" where
  "n_sites M = ncols (symp_matrix M)"

text \<open>
  The first constructor argument: a NumPy array with one or two dimensions, or a list of
  lists of mode indices.
\<close>

datatype maj_input = NdArray1 "bool list" | NdArray2 "bool matrix" | ListOfLists "nat list list"

definition modes_to_row :: "nat \<Rightarrow> nat list \<Rightarrow> bool list" where
  "modes_to_row n ordered_term = map (\<lambda>j. j \<in> set ordered_term) [0..<n]"

text \<open>
  \<^verbatim>\<open>initalize_op\<close> up to its assertion on the number of coefficients: the symplectic matrix
  and the coefficients, which the list form multiplies by the ordering signs.
\<close>

definition initalize_op :: "maj_input \<Rightarrow> complex list \<Rightarrow> error + bool matrix \<times> complex list" where
  "initalize_op input_term coeffs =
     (case input_term of
        NdArray1 v \<Rightarrow>
          if length v = 0 \<and> length coeffs = 1 then Inr ((2, [[False, False]]), coeffs)
          else if odd (length v) then Inl AssertionError
          else Inr (reshape_row v, coeffs)
      | NdArray2 A \<Rightarrow>
          if shape0 A = 0 \<and> length coeffs = 1 then Inr ((2, [[False, False]]), coeffs)
          else if odd (ncols A) then Inl AssertionError
          else Inr (A, coeffs)
      | ListOfLists terms \<Rightarrow>
          (let flat_list = set (concat terms);
               n = (if flat_list \<noteq> {}
                    then (if odd (Max flat_list + 1) then Max flat_list + 2 else Max flat_list + 1)
                    else 2)
           in if length coeffs < length terms then Inl IndexError
              else Inr ((n, map (\<lambda>term. modes_to_row n (fst (bubble_sort_maj term))) terms),
                        map2 (\<lambda>term c. c_mul c (of_int (snd (bubble_sort_maj term))))
                             terms (take (length terms) coeffs)
                        @ drop (length terms) coeffs)))"

text \<open>
  The constructor. Unless the phase factors are declared included, the coefficients are
  multiplied by \<^verbatim>\<open>(1j)**(weight//2)\<close>, a \<^verbatim>\<open>complex128\<close> power.
\<close>

definition MajoranaOp :: "libm \<Rightarrow> maj_input \<Rightarrow> complex list \<Rightarrow> bool \<Rightarrow> error + symplectic_op" where
  "MajoranaOp m input_term coeff_list phase_factors_included =
     ebind (initalize_op input_term coeff_list) (\<lambda>(M, coeffs).
       if shape0 M \<noteq> length coeffs then Inl AssertionError
       else Inr \<lparr>symp_matrix = M,
                 coeff_vec = (if phase_factors_included then coeffs
                              else map2 (\<lambda>c r. c_mul c (np_cpow m \<i> (count_true r div 2)))
                                        coeffs (mrows M))\<rparr>)"

text \<open>
  \<^verbatim>\<open>commutes_termwise\<close> returns the integer array \<^verbatim>\<open>(AtimeB + AandB + 1) % 2\<close>.
\<close>

definition MajoranaOp_commutes_termwise :: "symplectic_op \<Rightarrow> symplectic_op \<Rightarrow> nat list list" where
  "MajoranaOp_commutes_termwise A M_OP =
     (let sites = (if n_sites A \<noteq> n_sites M_OP then min (n_sites A) (n_sites M_OP) else n_sites A);
          suppA = map count_true (mrows (symp_matrix A));
          suppB = map count_true (mrows (symp_matrix M_OP))
      in map (\<lambda>(sa, a). map (\<lambda>(sb, b).
                (sa * sb + count_true (map2 (\<and>) (take sites a) (take sites b)) + 1) mod 2)
              (zip suppB (mrows (symp_matrix M_OP))))
             (zip suppA (mrows (symp_matrix A))))"

text \<open>
  \<^verbatim>\<open>cleanup\<close> with the default \<^verbatim>\<open>zero_threshold=1e-15\<close>: the reduction of \<^verbatim>\<open>PauliwordOp.cleanup\<close>,
  then only the rows whose coefficient exceeds the threshold in magnitude are kept.
\<close>

definition MajoranaOp_cleanup :: "libm \<Rightarrow> symplectic_op \<Rightarrow> error + symplectic_op" where
  "MajoranaOp_cleanup m M =
     (case reduce_rows (symp_matrix M) (coeff_vec M) of
        (reduced_symplectic_matrix, reduced_coeff_vec) \<Rightarrow>
          let mask_nonzero = map (\<lambda>c. c_abs c > zero_threshold) reduced_coeff_vec in
          ebind (np_mask (mrows reduced_symplectic_matrix) mask_nonzero) (\<lambda>rs.
          ebind (np_mask reduced_coeff_vec mask_nonzero) (\<lambda>cs.
            MajoranaOp m (NdArray2 (ncols reduced_symplectic_matrix, rs)) cs True)))"

text \<open>
  \<^verbatim>\<open>temp_mat = np.zeros((n_terms, n)); temp_mat[:, :n_small] += symp_matrix\<close>: every row
  followed by zeros up to the width \<open>n\<close>.
\<close>

definition pad_columns :: "nat \<Rightarrow> bool matrix \<Rightarrow> bool matrix" where
  "pad_columns n A = (n, map (\<lambda>r. r @ replicate (n - ncols A) False) (mrows A))"

definition MajoranaOp_add :: "libm \<Rightarrow> symplectic_op \<Rightarrow> symplectic_op \<Rightarrow> error + symplectic_op" where
  "MajoranaOp_add m A M_OP =
     ebind (if n_sites A \<noteq> n_sites M_OP
            then (if n_sites A < n_sites M_OP
                  then vstack (pad_columns (n_sites M_OP) (symp_matrix A)) (symp_matrix M_OP)
                  else vstack (symp_matrix A) (pad_columns (n_sites A) (symp_matrix M_OP)))
            else vstack (symp_matrix A) (symp_matrix M_OP)) (\<lambda>P_symp_mat_new.
     ebind (MajoranaOp m (NdArray2 P_symp_mat_new) (coeff_vec A @ coeff_vec M_OP) True)
           (MajoranaOp_cleanup m))"

text \<open>\<^verbatim>\<open>term_index_list[vec.astype(bool)]\<close>: the indices of the modes present in a row.\<close>

definition active_modes :: "bool list \<Rightarrow> nat list" where
  "active_modes vec = filter (\<lambda>j. vec ! j) [0..<length vec]"

definition MajoranaOp_mul :: "libm \<Rightarrow> symplectic_op \<Rightarrow> symplectic_op \<Rightarrow> error + symplectic_op" where
  "MajoranaOp_mul m A M_OP =
     (let temp_mat_self = (if n_sites A < n_sites M_OP
                           then pad_columns (n_sites M_OP) (symp_matrix A) else symp_matrix A);
          temp_mat_M_OP = (if n_sites M_OP < n_sites A
                           then pad_columns (n_sites A) (symp_matrix M_OP) else symp_matrix M_OP)
      in ebind (emap (\<lambda>((ind1, vec1), (ind2, vec2)).
                   if \<not> ind1 < length (coeff_vec A) \<or> \<not> ind2 < length (coeff_vec M_OP)
                   then Inl IndexError
                   else Inr (map2 (\<noteq>) vec1 vec2,
                             c_mul (c_mul (coeff_vec A ! ind1) (coeff_vec M_OP ! ind2))
                               (of_int (snd (bubble_sort_maj (active_modes vec1 @ active_modes vec2))))))
                 (List.product (zip [0..<shape0 temp_mat_self] (mrows temp_mat_self))
                               (zip [0..<shape0 temp_mat_M_OP] (mrows temp_mat_M_OP)))) (\<lambda>new.
         ebind (MajoranaOp m (NdArray2 (max (ncols temp_mat_M_OP) (ncols temp_mat_self), map fst new))
                           (map snd new) True)
               (MajoranaOp_cleanup m)))"

text \<open>
  \<^verbatim>\<open>np.allclose(a, b)\<close> with the defaults \<^verbatim>\<open>rtol=1e-05, atol=1e-08\<close>, on two arrays of one length:
  \<^verbatim>\<open>abs(x - y) <= atol + rtol * abs(y)\<close> for every pair, in binary64 arithmetic. The two
  tolerances are the binary64 numbers nearest to \<open>10^-5\<close> and \<open>10^-8\<close>.
\<close>

definition rtol :: real where
  "rtol = 5902958103587057 / 2 ^ 69"

definition atol :: real where
  "atol = 3022314549036573 / 2 ^ 78"

definition allclose :: "complex list \<Rightarrow> complex list \<Rightarrow> bool" where
  "allclose a b = list_all2 (\<lambda>x y. c_abs (c_sub x y) \<le> fl_add atol (fl_mul rtol (c_abs y))) a b"

definition MajoranaOp_eq :: "libm \<Rightarrow> symplectic_op \<Rightarrow> symplectic_op \<Rightarrow> error + bool" where
  "MajoranaOp_eq m A M_OP =
     ebind (MajoranaOp_cleanup m A) (\<lambda>check_1.
     ebind (MajoranaOp_cleanup m M_OP) (\<lambda>check_2.
       if n_terms check_1 \<noteq> n_terms check_2 then Inr False
       else
         let temp_mat_self = (if n_sites check_1 < n_sites check_2
                              then pad_columns (n_sites check_2) (symp_matrix check_1)
                              else symp_matrix check_1);
             temp_mat_M_OP = (if n_sites check_2 < n_sites check_1
                              then pad_columns (n_sites check_1) (symp_matrix check_2)
                              else symp_matrix check_2)
         in ebind (np_binop2 (\<noteq>) temp_mat_self temp_mat_M_OP) (\<lambda>X.
              Inr (\<not> list_ex (list_ex (\<lambda>b. b)) (mrows X)
                   \<and> allclose (coeff_vec check_1) (coeff_vec check_2)))))"

text \<open>
  An operator written over \<open>n\<close> sites: every row followed by zeros up to the width \<open>n\<close>,
  the coefficients unchanged. An operator that already has \<open>n\<close> sites is left as it is.
\<close>

definition widen :: "nat \<Rightarrow> symplectic_op \<Rightarrow> symplectic_op" where
  "widen n M = M\<lparr>symp_matrix := pad_columns n (symp_matrix M)\<rparr>"


section \<open>Canonical ordering: the bubble sort sorts and counts the inversions\<close>

lemma inversions_append:
  "inversions (xs @ ys) = inversions xs + inversions ys + (\<Sum>x\<leftarrow>xs. length (filter (\<lambda>y. y < x) ys))"
  by (induction xs) auto

lemma inversions_swap:
  assumes "b < a"
  shows "inversions (xs @ a # b # ys) = Suc (inversions (xs @ b # a # ys))"
proof -
  have cross: "(\<Sum>x\<leftarrow>xs. length (filter (\<lambda>y. y < x) (a # b # ys)))
      = (\<Sum>x\<leftarrow>xs. length (filter (\<lambda>y. y < x) (b # a # ys)))"
    by (induction xs) auto
  have h: "inversions (a # b # ys) = Suc (inversions (b # a # ys))"
    using assms by auto
  show ?thesis
    unfolding inversions_append cross h by simp
qed

lemma inversions_sorted: "sorted xs \<Longrightarrow> inversions xs = 0"
  by (induction xs) (auto simp: filter_empty_conv)

lemma swap_as_append:
  assumes "j + 1 < length arr"
  shows "arr = take j arr @ arr ! j # arr ! (j + 1) # drop (j + 2) arr"
    and "arr[j := arr ! (j + 1), j + 1 := arr ! j] = take j arr @ arr ! (j + 1) # arr ! j # drop (j + 2) arr"
proof -
  show 1: "arr = take j arr @ arr ! j # arr ! (j + 1) # drop (j + 2) arr"
    using assms by (metis Cons_nth_drop_Suc Suc_eq_plus1 Suc_lessD add_2_eq_Suc' append_take_drop_id)
  have l: "length (take j arr) = j" using assms by simp
  show "arr[j := arr ! (j + 1), j + 1 := arr ! j] = take j arr @ arr ! (j + 1) # arr ! j # drop (j + 2) arr"
    apply (subst 1) apply (subst (2) 1)
    using l by (simp add: list_update_append nth_append del: append_take_drop_id)
qed

lemma inner_step_props:
  assumes "j + 1 < length arr" and "inner_step j (arr, sw, c) = (arr', sw', c')"
  shows "length arr' = length arr \<and> mset arr' = mset arr
       \<and> inversions arr + c = inversions arr' + c'
       \<and> (\<forall>k<j. arr' ! k = arr ! k) \<and> drop (j + 2) arr' = drop (j + 2) arr
       \<and> arr' ! j \<le> arr' ! (j + 1) \<and> arr' ! (j + 1) = max (arr ! j) (arr ! (j + 1))
       \<and> (\<not> sw' \<longrightarrow> \<not> sw \<and> arr' = arr \<and> c' = c \<and> arr ! j \<le> arr ! (j + 1))"
proof (cases "arr ! j > arr ! (j + 1)")
  case False
  with assms show ?thesis by (auto simp: inner_step_def)
next
  case True
  let ?new = "take j arr @ arr ! (j + 1) # arr ! j # drop (j + 2) arr"
  have old: "arr = take j arr @ arr ! j # arr ! (j + 1) # drop (j + 2) arr"
    by (rule swap_as_append(1) [OF assms(1)])
  have eq: "arr' = ?new" and sw: "sw'" and c: "c' = c + 1"
    using assms True swap_as_append(2) [OF assms(1)] by (auto simp: inner_step_def)
  have lj: "length (take j arr) = j" using assms(1) by simp
  have len: "length arr' = length arr" unfolding eq using assms(1) by simp
  have ms_old: "mset arr = mset (take j arr @ arr ! j # arr ! (j + 1) # drop (j + 2) arr)"
    by (rule arg_cong [where f = mset, OF old])
  have ms: "mset arr' = mset arr" unfolding eq ms_old by simp
  have inv_old: "inversions arr = inversions (take j arr @ arr ! j # arr ! (j + 1) # drop (j + 2) arr)"
    by (rule arg_cong [where f = inversions, OF old])
  have inv: "inversions arr + c = inversions arr' + c'"
    unfolding eq inv_old c inversions_swap [OF True] by simp
  have pre: "\<forall>k<j. arr' ! k = arr ! k" unfolding eq using lj by (simp add: nth_append)
  have dr: "drop (j + 2) arr' = drop (j + 2) arr" unfolding eq using lj by simp
  have nj: "arr' ! j = arr ! (j + 1)" unfolding eq using lj by (simp add: nth_append)
  have nj1: "arr' ! (j + 1) = arr ! j" unfolding eq using lj by (simp add: nth_append)
  have mx: "arr' ! j \<le> arr' ! (j + 1)" "arr' ! (j + 1) = max (arr ! j) (arr ! (j + 1))"
    using nj nj1 True by (simp_all add: max_def)
  from len ms inv pre dr mx sw show ?thesis by blast
qed

lemma inner_fold_props:
  assumes "m < length arr" and "fold inner_step [0..<m] (arr, sw, c) = (arr', sw', c')"
  shows "length arr' = length arr \<and> mset arr' = mset arr
       \<and> inversions arr + c = inversions arr' + c'
       \<and> drop (m + 1) arr' = drop (m + 1) arr
       \<and> (\<forall>k\<le>m. arr' ! k \<le> arr' ! m)
       \<and> (\<not> sw' \<longrightarrow> \<not> sw \<and> arr' = arr \<and> c' = c \<and> (\<forall>j<m. arr ! j \<le> arr ! (j + 1)))"
  using assms
proof (induction m arbitrary: arr' sw' c')
  case 0
  then show ?case by simp
next
  case (Suc m)
  obtain a1 s1 c1 where mid: "fold inner_step [0..<m] (arr, sw, c) = (a1, s1, c1)"
    by (cases "fold inner_step [0..<m] (arr, sw, c)") auto
  have ih: "length a1 = length arr \<and> mset a1 = mset arr
       \<and> inversions arr + c = inversions a1 + c1
       \<and> drop (m + 1) a1 = drop (m + 1) arr
       \<and> (\<forall>k\<le>m. a1 ! k \<le> a1 ! m)
       \<and> (\<not> s1 \<longrightarrow> \<not> sw \<and> a1 = arr \<and> c1 = c \<and> (\<forall>j<m. arr ! j \<le> arr ! (j + 1)))"
    using Suc.IH [OF _ mid] Suc.prems(1) by simp
  have step: "inner_step m (a1, s1, c1) = (arr', sw', c')"
    using Suc.prems(2) mid by simp
  have rng: "m + 1 < length a1" using ih Suc.prems(1) by simp
  note st = inner_step_props [OF rng step]
  have d: "drop (Suc m + 1) arr' = drop (Suc m + 1) arr"
  proof -
    have "drop (m + 2) a1 = drop 1 (drop (m + 1) a1)" by simp
    also have "\<dots> = drop 1 (drop (m + 1) arr)" using ih by simp
    finally show ?thesis using st by simp
  qed
  have mx: "\<forall>k\<le>Suc m. arr' ! k \<le> arr' ! Suc m"
  proof (intro allI impI)
    fix k assume "k \<le> Suc m"
    then consider "k < m" | "k = m" | "k = Suc m" by linarith
    then show "arr' ! k \<le> arr' ! Suc m"
    proof cases
      case 1
      then have "arr' ! k = a1 ! k" using st by simp
      moreover have "a1 ! k \<le> a1 ! m" using ih 1 by simp
      ultimately show ?thesis using st by simp
    next
      case 2 then show ?thesis using st by simp
    next
      case 3 then show ?thesis by simp
    qed
  qed
  have ns: "\<not> sw' \<longrightarrow> \<not> sw \<and> arr' = arr \<and> c' = c \<and> (\<forall>j<Suc m. arr ! j \<le> arr ! (j + 1))"
  proof
    assume "\<not> sw'"
    then have a: "\<not> s1" "arr' = a1" "c' = c1" "a1 ! m \<le> a1 ! (m + 1)" using st by auto
    then have b: "\<not> sw" "a1 = arr" "c1 = c" "\<forall>j<m. arr ! j \<le> arr ! (j + 1)" using ih by auto
    show "\<not> sw \<and> arr' = arr \<and> c' = c \<and> (\<forall>j<Suc m. arr ! j \<le> arr ! (j + 1))"
      using a b by (auto simp: less_Suc_eq)
  qed
  have l: "length arr' = length arr" using st ih by simp
  have ms: "mset arr' = mset arr" using st ih by simp
  have iv: "inversions arr + c = inversions arr' + c'" using st ih by simp
  from l ms iv d mx ns show ?case by blast
qed

lemma mset_take_eq:
  assumes "mset a1 = mset arr" and "drop k a1 = drop k arr"
  shows "mset (take k a1) = mset (take k arr)"
proof -
  have "mset (take k a1) + mset (drop k a1) = mset (take k arr) + mset (drop k arr)"
    using assms(1) by (simp flip: mset_append)
  then show ?thesis using assms(2) by simp
qed

lemma outer_loop_props:
  assumes "length arr = n" and "i \<le> n" and "sorted (drop (n - i) arr)"
    and "\<forall>x\<in>set (take (n - i) arr). \<forall>y\<in>set (drop (n - i) arr). x \<le> y"
    and "outer_loop i n arr c = (arr', c')"
  shows "sorted arr' \<and> mset arr' = mset arr \<and> inversions arr + c = c'"
  using assms
proof (induction i n arr c rule: outer_loop.induct)
  case (1 i n arr c)
  show ?case
  proof (cases "i < n")
    case False
    then have "i = n" using "1.prems"(2) by simp
    then have "sorted arr" using "1.prems"(3) by simp
    moreover have "arr' = arr" "c' = c" using "1.prems"(5) False by (simp_all add: outer_loop.simps)
    ultimately show ?thesis by (simp add: inversions_sorted)
  next
    case True
    define m where "m = n - i - 1"
    have k: "n - i = m + 1" "m < length arr" using True "1.prems"(1) by (simp_all add: m_def)
    obtain a1 s1 c1 where il: "inner_loop m arr c = (a1, s1, c1)"
      by (cases "inner_loop m arr c") auto
    have fp: "length a1 = length arr \<and> mset a1 = mset arr
       \<and> inversions arr + c = inversions a1 + c1
       \<and> drop (m + 1) a1 = drop (m + 1) arr
       \<and> (\<forall>k\<le>m. a1 ! k \<le> a1 ! m)
       \<and> (\<not> s1 \<longrightarrow> \<not> False \<and> a1 = arr \<and> c1 = c \<and> (\<forall>j<m. arr ! j \<le> arr ! (j + 1)))"
      using inner_fold_props [OF k(2), of False c a1 s1 c1] il by (simp add: inner_loop_def)
    show ?thesis
    proof (cases s1)
      case False
      then have same: "a1 = arr" "c1 = c" and adj: "\<forall>j<m. arr ! j \<le> arr ! (j + 1)" using fp by auto
      have res: "arr' = arr" "c' = c"
        using "1.prems"(5) True il False same by (simp_all add: outer_loop.simps [of i n arr c] m_def)
      have "sorted (take (m + 1) arr)"
        using adj k(2) by (simp add: sorted_iff_nth_Suc)
      then have "sorted (take (m + 1) arr @ drop (m + 1) arr)"
        using "1.prems"(3,4) unfolding k(1) sorted_append by blast
      then have "sorted arr" by simp
      then show ?thesis using res by (simp add: inversions_sorted)
    next
      case True
      have rec: "outer_loop (i + 1) n a1 c1 = (arr', c')"
        using "1.prems"(5) \<open>i < n\<close> il True by (simp add: outer_loop.simps [of i n arr c] m_def)
      have nm: "n - (i + 1) = m" by (simp add: m_def)
      have tk: "mset (take (m + 1) a1) = mset (take (m + 1) arr)"
        using mset_take_eq fp by blast
      then have tks: "set (take (m + 1) a1) = set (take (m + 1) arr)" by (rule mset_eq_setD)
      have la: "m < length a1" using fp k(2) by simp
      have dm: "drop m a1 = a1 ! m # drop (m + 1) arr"
        using fp la by (metis Cons_nth_drop_Suc Suc_eq_plus1)
      have am: "a1 ! m \<in> set (take (m + 1) arr)"
        using tks la by (metis Suc_eq_plus1 in_set_conv_nth length_take lessI min_less_iff_conj nth_take)
      have s: "sorted (drop m a1)"
        unfolding dm using "1.prems"(3,4) am unfolding k(1) by simp
      have sub: "set (take m a1) \<subseteq> set (take (m + 1) arr)"
        using tks by (metis Suc_eq_plus1 le_add1 set_take_subset_set_take add.commute plus_1_eq_Suc)
      have c: "\<forall>x\<in>set (take m a1). \<forall>y\<in>set (drop m a1). x \<le> y"
      proof (intro ballI)
        fix x y assume x: "x \<in> set (take m a1)" and y: "y \<in> set (drop m a1)"
        from x obtain k where kk: "k < m" "x = a1 ! k"
          using la by (auto simp: in_set_conv_nth)
        from y consider "y = a1 ! m" | "y \<in> set (drop (m + 1) arr)" unfolding dm by auto
        then show "x \<le> y"
        proof cases
          case 1 then show ?thesis using fp kk by simp
        next
          case 2 then show ?thesis using "1.prems"(4) sub x unfolding k(1) by blast
        qed
      qed
      have "sorted arr' \<and> mset arr' = mset a1 \<and> inversions a1 + c1 = c'"
      proof (rule "1.IH" [OF \<open>i < n\<close> _ refl])
        show "(a1, s1, c1) = inner_loop (n - i - 1) arr c" using il by (simp add: m_def)
        show "\<not> \<not> s1" using True by simp
        show "length a1 = n" using fp "1.prems"(1) by simp
        show "i + 1 \<le> n" using \<open>i < n\<close> by simp
        show "sorted (drop (n - (i + 1)) a1)" unfolding nm by (rule s)
        show "\<forall>x\<in>set (take (n - (i + 1)) a1). \<forall>y\<in>set (drop (n - (i + 1)) a1). x \<le> y"
          unfolding nm by (rule c)
        show "outer_loop (i + 1) n a1 c1 = (arr', c')" by (rule rec)
      qed
      then show ?thesis using fp by simp
    qed
  qed
qed

lemma outer_loop_sorts:
  assumes "outer_loop 0 (length xs) xs 0 = (arr', c')"
  shows "arr' = sort xs \<and> c' = inversions xs"
proof -
  have "sorted arr' \<and> mset arr' = mset xs \<and> inversions xs + 0 = c'"
    by (rule outer_loop_props [OF refl _ _ _ assms]) simp_all
  then show ?thesis using properties_for_sort [of arr' xs] by auto
qed

text \<open>
  C3. For every list of mode indices, \<open>bubble_sort_maj\<close> returns the list sorted ascending,
  with the sign \<open>+1\<close> when the number of adjacent swaps the reference bubble sort performs
  is even and \<open>-1\<close> when it is odd. That number of swaps is the number of inversions of the
  input, so the sign is the parity of the sorting permutation. An input that is already
  sorted gives the sign \<open>+1\<close>, and \<open>[2, 0, 1]\<close> gives \<open>([0, 1, 2], +1)\<close>: two swaps.
\<close>

theorem bubble_sort_maj_sorted_sign:
  "fst (bubble_sort_maj xs) = sort xs
   \<and> snd (bubble_sort_maj xs) = (if even (swap_count xs) then 1 else - 1)
   \<and> swap_count xs = inversions xs
   \<and> (sorted xs \<longrightarrow> bubble_sort_maj xs = (xs, 1))
   \<and> bubble_sort_maj [2, 0, 1] = ([0, 1, 2], 1)
   \<and> swap_count [2, 0, 1] = 2"
proof -
  obtain arr' c' where o: "outer_loop 0 (length xs) xs 0 = (arr', c')"
    by (cases "outer_loop 0 (length xs) xs 0") auto
  have r: "arr' = sort xs" "c' = inversions xs" using outer_loop_sorts [OF o] by simp_all
  have 1: "fst (bubble_sort_maj xs) = sort xs" by (simp add: bubble_sort_maj_def o r)
  have 2: "snd (bubble_sort_maj xs) = (if even (swap_count xs) then 1 else - 1)"
    by (simp add: bubble_sort_maj_def swap_count_def o sign_dict_def even_iff_mod_2_eq_zero)
  have 3: "swap_count xs = inversions xs" by (simp add: swap_count_def o r)
  have 4: "sorted xs \<longrightarrow> bubble_sort_maj xs = (xs, 1)"
    by (auto simp: bubble_sort_maj_def o r sign_dict_def inversions_sorted sorted_sort_id)
  have 5: "bubble_sort_maj [2, 0, 1] = ([0, 1, 2], 1)" by code_simp
  have 6: "swap_count [2, 0, 1] = 2" by code_simp
  from 1 2 3 4 5 6 show ?thesis by blast
qed

theorem bubble_sort_maj_sorted_sign_witness:
  "sorted [0, 1, 2 :: nat] \<and> bubble_sort_maj [0, 1, 2] = ([0, 1, 2], 1)"
proof -
  have s: "sorted [0, 1, 2 :: nat]" by simp
  have "sorted [0, 1, 2 :: nat] \<longrightarrow> bubble_sort_maj [0, 1, 2] = ([0, 1, 2], 1)"
    using bubble_sort_maj_sorted_sign [of "[0, 1, 2]"] by blast
  with s show ?thesis by blast
qed


section \<open>NumPy helpers on well-shaped arguments\<close>

lemma ebind_Inr [simp]: "ebind (Inr x) f = f x"
  by (simp add: ebind_def)

lemma ebind_Inl [simp]: "ebind (Inl e) f = Inl e"
  by (simp add: ebind_def)

lemma bc_dim_same [simp]: "bc_dim a a = Inr a"
  by (simp add: bc_dim_def)

lemma bc_dim_one [simp]: "bc_dim a 1 = Inr a" "bc_dim a (Suc 0) = Inr a"
  by (simp_all add: bc_dim_def)

lemma bc_to_same [simp]: "length xs = n \<Longrightarrow> bc_to n xs = xs"
  by (simp add: bc_to_def)

lemma bc_to_single [simp]: "bc_to n [x] = replicate n x"
  by (cases "n = 1") (simp_all add: bc_to_def)

lemma map2_replicate: "map2 g xs (replicate (length xs) b) = map (\<lambda>x. g x b) xs"
  by (induction xs) simp_all

lemma np_binop1_same: "length xs = length ys \<Longrightarrow> np_binop1 f xs ys = Inr (map2 f xs ys)"
  by (simp add: np_binop1_def)

lemma np_binop1_single: "np_binop1 f xs [y] = Inr (map (\<lambda>x. f x y) xs)"
  by (simp add: np_binop1_def map2_replicate)

lemma map2_bc_rows:
  assumes "\<forall>r\<in>set rs. length r = w" and "\<forall>s\<in>set ss. length s = w"
  shows "map2 (\<lambda>r s. map2 f (bc_to w r) (bc_to w s)) rs ss = map2 (map2 f) rs ss"
  using assms by (induction rs ss rule: list_induct2') simp_all

lemma np_binop2_same:
  assumes "\<forall>r\<in>set rs. length r = w" and "\<forall>s\<in>set ss. length s = w" and "length rs = length ss"
  shows "np_binop2 f (w, rs) (w, ss) = Inr (w, map2 (map2 f) rs ss)"
  using assms by (simp add: np_binop2_def shape0_def mrows_def ncols_def map2_bc_rows)

lemma np_binop2_row:
  assumes "\<forall>r\<in>set rs. length r = w" and "length b = w"
  shows "np_binop2 f (w, rs) (w, [b]) = Inr (w, map (\<lambda>r. map2 f r b) rs)"
proof -
  have "map2 (\<lambda>r s. map2 f (bc_to w r) (bc_to w s)) rs (replicate (length rs) b)
        = map2 (map2 f) rs (replicate (length rs) b)"
    by (rule map2_bc_rows) (use assms in auto)
  then show ?thesis
    by (simp add: np_binop2_def shape0_def mrows_def ncols_def map2_replicate)
qed


section \<open>Machine arithmetic on particular values\<close>

lemma rnd_0 [simp]: "rnd 0 = 0"
  by (simp add: rnd_def)

lemma is_c128_1: "is_c128 1"
proof -
  have "rnd 1 = 1" by code_simp
  then show ?thesis by (simp add: is_c128_def is_double_def)
qed

lemma c_mul_one: "is_c128 c \<Longrightarrow> c_mul c 1 = c"
  by (simp add: c_mul_def fl_mul_def fl_add_def fl_sub_def is_c128_def is_double_def complex_eq_iff)

lemma np_cpow_0 [simp]: "np_cpow m a 0 = 1"
  by (simp add: np_cpow_def)

lemma np_cpow_large: "100 \<le> k \<Longrightarrow> a \<noteq> 0 \<Longrightarrow> np_cpow m a k = libm_cpow m a k"
  by (simp add: np_cpow_def)



section \<open>Multiplication by a single Pauli term\<close>

lemma map2_map_same: "map2 f (map g rs) (map h rs) = map (\<lambda>r. f (g r) (h r)) rs"
  by (induction rs) simp_all

lemma map2_map_left: "map2 f (map g xs) ys = map2 (\<lambda>x y. f (g x) y) xs ys"
  by (induction xs ys rule: list_induct2') simp_all

lemma map_map2: "map h (map2 f xs ys) = map2 (\<lambda>x y. h (f x y)) xs ys"
  by (induction xs ys rule: list_induct2') simp_all

lemma PauliwordOp_ok [simp]:
  "length rs = length cs \<Longrightarrow> PauliwordOp (w, rs) cs = Inr \<lparr>symp_matrix = (w, rs), coeff_vec = cs\<rparr>"
  by (simp add: PauliwordOp_def shape0_def mrows_def)

lemma blocks_even:
  assumes "symp_matrix P = (2 * n, rs)"
  shows "n_qubits P = n" "X_block P = (n, map (take n) rs)" "Z_block P = (n, map (drop n) rs)"
  using assms by (simp_all add: n_qubits_def X_block_def Z_block_def ncols_def mrows_def)

lemma Y_count_even:
  assumes "symp_matrix P = (2 * n, rs)" and "\<forall>r\<in>set rs. length r = 2 * n"
  shows "Y_count P = Inr (map (\<lambda>r. count_true (map2 (\<and>) (take n r) (drop n r))) rs)"
proof -
  have "np_binop2 (\<and>) (n, map (take n) rs) (n, map (drop n) rs)
        = Inr (n, map2 (map2 (\<and>)) (map (take n) rs) (map (drop n) rs))"
    by (rule np_binop2_same) (use assms(2) in auto)
  then show ?thesis
    by (simp add: Y_count_def blocks_even [OF assms(1)] map2_map_same mrows_def)
qed

lemma multiply_single_Pword_result:
  assumes P: "symp_matrix P = (2 * n, rs)" and wf: "\<forall>r\<in>set rs. length r = 2 * n"
    and c: "length (coeff_vec P) = length rs"
    and Q: "symp_matrix Pword = (2 * n, [b])" "length b = 2 * n" "coeff_vec Pword = [cb]"
  shows "multiply_single_Pword m P Pword =
         Inr \<lparr>symp_matrix = (2 * n, map (\<lambda>r. map2 (\<noteq>) r b) rs),
              coeff_vec = map2 (\<lambda>r c. c_mul (c_mul (machine_phase m n r b) c) cb) rs (coeff_vec P)\<rparr>"
proof -
  let ?Ph = "\<lparr>symp_matrix = (2 * n, map (\<lambda>r. map2 (\<noteq>) r b) rs), coeff_vec = replicate (length rs) 1\<rparr>"
  have ph: "multiply_single_Pword_phaseless P Pword = Inr ?Ph"
    using np_binop2_row [OF wf Q(2), of "(\<noteq>)"]
    by (simp add: multiply_single_Pword_phaseless_def P Q n_terms_def shape0_def mrows_def)
  have nt: "(n_terms Pword \<noteq> 1) = False" by (simp add: n_terms_def Q shape0_def mrows_def)
  have fl: "np_binop2 (\<and>) (X_block P) (Z_block Pword)
            = Inr (n, map (\<lambda>r. map2 (\<and>) (take n r) (drop n b)) rs)"
    using np_binop2_row [of "map (take n) rs" n "drop n b" "(\<and>)"] wf Q(2)
    by (simp add: blocks_even [OF P] blocks_even [OF Q(1)] comp_def)
  have ya: "Y_count P = Inr (map (y_positions n) rs)"
    unfolding y_positions_def by (rule Y_count_even [OF P wf])
  have yb: "Y_count Pword = Inr [y_positions n b]"
    using Y_count_even [OF Q(1)] Q(2) by (simp add: y_positions_def)
  have yp: "Y_count ?Ph = Inr (map (\<lambda>r. y_positions n (map2 (\<noteq>) r b)) rs)"
    using Y_count_even [of ?Ph n "map (\<lambda>r. map2 (\<noteq>) r b) rs"] wf Q(2)
    by (simp add: comp_def y_positions_def)
  let ?s = "\<lambda>r. (- 1 :: int) ^ count_true (map2 (\<and>) (take n r) (drop n b))"
  let ?g = "\<lambda>r. np_cpow m (- \<i>) (y_positions n r + y_positions n b)"
  let ?t = "\<lambda>r. np_cpow m \<i> (y_positions n (map2 (\<noteq>) r b))"
  have full: "np_binop1 (+) (map (y_positions n) rs) [y_positions n b]
              = Inr (map (\<lambda>r. y_positions n r + y_positions n b) rs)"
    by (simp add: np_binop1_single comp_def)
  have m1: "np_binop1 (\<lambda>s x. c_mul (of_int s) x) (map ?s rs) (map ?g rs)
            = Inr (map (\<lambda>r. c_mul (of_int (?s r)) (?g r)) rs)"
    by (simp add: np_binop1_same map2_map_same)
  have m2: "np_binop1 c_mul (map (\<lambda>r. c_mul (of_int (?s r)) (?g r)) rs) (map ?t rs)
            = Inr (map (\<lambda>r. machine_phase m n r b) rs)"
    by (simp add: np_binop1_same map2_map_same machine_phase_def)
  have m3: "np_binop1 c_mul (map (\<lambda>r. machine_phase m n r b) rs) (coeff_vec P)
            = Inr (map2 (\<lambda>r c. c_mul (machine_phase m n r b) c) rs (coeff_vec P))"
    by (simp add: np_binop1_same c map2_map_left)
  have m4: "np_binop1 c_mul (map2 (\<lambda>r c. c_mul (machine_phase m n r b) c) rs (coeff_vec P)) [cb]
            = Inr (map2 (\<lambda>r c. c_mul (c_mul (machine_phase m n r b) c) cb) rs (coeff_vec P))"
    by (auto simp: np_binop1_single)
  show ?thesis
    unfolding multiply_single_Pword_def ph ebind_Inr nt if_False fl ya yb yp Let_def
    apply (simp only: mrows_def snd_conv map_map comp_def full ebind_Inr m1 m2 m3 Q(3) m4
        symplectic_op.simps)
    apply (rule PauliwordOp_ok)
    apply (simp add: c)
    done
qed

lemma wf_opD:
  assumes "wf_op P"
  shows "symp_matrix P = (ncols (symp_matrix P), mrows (symp_matrix P))"
    and "\<forall>r\<in>set (mrows (symp_matrix P)). length r = ncols (symp_matrix P)"
    and "length (coeff_vec P) = length (mrows (symp_matrix P))"
  using assms by (simp_all add: wf_op_def wf_matrix_def ncols_def mrows_def list_all_iff n_terms_def shape0_def)

lemma count_true_replicate:
  "count_true (replicate k True) = k" "count_true (replicate k False) = 0"
  by (simp_all add: count_true_def)

lemma map2_replicate_same: "map2 f (replicate k a) (replicate k b) = replicate k (f a b)"
  by (induction k) simp_all



section \<open>\<^verbatim>\<open>update_sector\<close>\<close>

text \<open>
  C5, as stated, at the stabilizer \<open>ZI\<close> and the reference state \<open>[1, 0]\<close>: the claim says the
  coefficient becomes \<open>+1\<close>; \<^verbatim>\<open>update_sector\<close> sets it to \<open>-1\<close>, since the \<open>Z\<close> acts on the
  occupied qubit 0.
\<close>

theorem update_sector_counterexample:
  "string_to_symplectic ''ZI'' 2 = Inr [False, False, True, False]
   \<and> update_sector \<lparr>symp_matrix = (4, [[False, False, True, False]]), coeff_vec = [1]\<rparr> [1, 0]
       = Inr \<lparr>symp_matrix = (4, [[False, False, True, False]]), coeff_vec = [- 1]\<rparr>
   \<and> (- 1 :: complex) \<noteq> 1"
  by code_simp

text \<open>
  C5, amended. For a stabilizer operator over two qubits whose only row is \<open>ZI\<close>,
  \<^verbatim>\<open>update_sector\<close> with the reference state \<open>[1, 0]\<close> sets the coefficient to \<open>-1\<close>; for the row
  \<open>ZZ\<close> the reference state \<open>[1, 1]\<close> gives \<open>+1\<close> and \<open>[1, 0]\<close> gives \<open>-1\<close>. The matrix is not
  changed.
\<close>

theorem update_sector_values:
  "string_to_symplectic ''ZI'' 2 = Inr [False, False, True, False]
   \<and> string_to_symplectic ''ZZ'' 2 = Inr [False, False, True, True]
   \<and> (symp_matrix S = (4, [[False, False, True, False]])
        \<longrightarrow> update_sector S [1, 0] = Inr (S\<lparr>coeff_vec := [- 1]\<rparr>))
   \<and> (symp_matrix S = (4, [[False, False, True, True]])
        \<longrightarrow> update_sector S [1, 1] = Inr (S\<lparr>coeff_vec := [1]\<rparr>)
          \<and> update_sector S [1, 0] = Inr (S\<lparr>coeff_vec := [- 1]\<rparr>))"
proof -
  have 1: "string_to_symplectic ''ZI'' 2 = Inr [False, False, True, False]" by code_simp
  have 2: "string_to_symplectic ''ZZ'' 2 = Inr [False, False, True, True]" by code_simp
  have 3: "update_sector S [1, 0] = Inr (S\<lparr>coeff_vec := [- 1]\<rparr>)"
    if "symp_matrix S = (4, [[False, False, True, False]])"
    using that by (simp add: update_sector_def np_binop2_def Z_block_def n_qubits_def ncols_def
        mrows_def shape0_def reshape_row_def count_true_def bc_dim_def bc_to_def)
  have 4: "update_sector S [1, 1] = Inr (S\<lparr>coeff_vec := [1]\<rparr>)"
      "update_sector S [1, 0] = Inr (S\<lparr>coeff_vec := [- 1]\<rparr>)"
    if "symp_matrix S = (4, [[False, False, True, True]])"
    using that by (simp_all add: update_sector_def np_binop2_def Z_block_def n_qubits_def ncols_def
        mrows_def shape0_def reshape_row_def count_true_def bc_dim_def bc_to_def)
  from 1 2 3 4 show ?thesis by blast
qed

theorem update_sector_values_witness:
  "symp_matrix \<lparr>symp_matrix = (4, [[False, False, True, False]]), coeff_vec = [1]\<rparr>
     = (4, [[False, False, True, False]])
   \<and> update_sector \<lparr>symp_matrix = (4, [[False, False, True, False]]), coeff_vec = [1]\<rparr> [1, 0]
       = Inr \<lparr>symp_matrix = (4, [[False, False, True, False]]), coeff_vec = [- 1]\<rparr>
   \<and> symp_matrix \<lparr>symp_matrix = (4, [[False, False, True, True]]), coeff_vec = [1]\<rparr>
     = (4, [[False, False, True, True]])
   \<and> update_sector \<lparr>symp_matrix = (4, [[False, False, True, True]]), coeff_vec = [1]\<rparr> [1, 1]
       = Inr \<lparr>symp_matrix = (4, [[False, False, True, True]]), coeff_vec = [1]\<rparr>
   \<and> update_sector \<lparr>symp_matrix = (4, [[False, False, True, True]]), coeff_vec = [1]\<rparr> [1, 0]
       = Inr \<lparr>symp_matrix = (4, [[False, False, True, True]]), coeff_vec = [- 1]\<rparr>"
  using update_sector_values [of "\<lparr>symp_matrix = (4, [[False, False, True, False]]), coeff_vec = [1]\<rparr>"]
    update_sector_values [of "\<lparr>symp_matrix = (4, [[False, False, True, True]]), coeff_vec = [1]\<rparr>"]
  by simp


section \<open>\<^verbatim>\<open>MajoranaOp\<close>: termwise commutation and the identity from an empty array\<close>

lemma count_true_card: "count_true r = card {l. l < length r \<and> r ! l}"
  by (simp add: count_true_def length_filter_conv_card)

lemma count_true_overlap:
  "count_true (map2 (\<and>) (take m a) (take m b))
   = card {l. l < m \<and> l < length a \<and> l < length b \<and> a ! l \<and> b ! l}"
proof -
  have "{l. l < length (map2 (\<and>) (take m a) (take m b)) \<and> map2 (\<and>) (take m a) (take m b) ! l}
        = {l. l < m \<and> l < length a \<and> l < length b \<and> a ! l \<and> b ! l}"
    by auto
  then show ?thesis by (simp only: count_true_card)
qed

text \<open>
  C4, as stated, at \<open>A = B = \<gamma>\<^sub>0\<close> on two sites: the entry is 1 (true: a Majorana mode
  commutes with itself) while \<open>(sa * sb + o + 1) mod 2\<close> is 1, not 0.
\<close>

theorem MajoranaOp_commutes_termwise_counterexample:
  "MajoranaOp exact_libm (NdArray2 (2, [[True, False]])) [1] False
     = Inr \<lparr>symp_matrix = (2, [[True, False]]), coeff_vec = [1]\<rparr>
   \<and> MajoranaOp_commutes_termwise \<lparr>symp_matrix = (2, [[True, False]]), coeff_vec = [1]\<rparr>
        \<lparr>symp_matrix = (2, [[True, False]]), coeff_vec = [1]\<rparr> ! 0 ! 0 = 1
   \<and> (count_true [True, False] * count_true [True, False]
        + count_true (map2 (\<and>) (take 2 [True, False]) (take 2 [True, False])) + 1) mod 2 \<noteq> (0 :: nat)"
proof -
  have a: "MajoranaOp m (NdArray2 (2, [[True, False]])) [1] False
     = Inr \<lparr>symp_matrix = (2, [[True, False]]), coeff_vec = [1]\<rparr>" for m
    by code_simp
  have b: "MajoranaOp_commutes_termwise \<lparr>symp_matrix = (2, [[True, False]]), coeff_vec = [1]\<rparr>
        \<lparr>symp_matrix = (2, [[True, False]]), coeff_vec = [1]\<rparr> ! 0 ! 0 = 1"
    by code_simp
  have c: "(count_true [True, False] * count_true [True, False]
        + count_true (map2 (\<and>) (take 2 [True, False]) (take 2 [True, False])) + 1) mod 2 \<noteq> (0 :: nat)"
    by code_simp
  from a [of exact_libm] b c show ?thesis by (intro conjI)
qed

text \<open>
  C4, amended. Entry \<open>(i, j)\<close> of \<^verbatim>\<open>commutes_termwise(A, B)\<close> is the integer
  \<open>(sa * sb + o + 1) mod 2\<close>, where \<open>sa\<close> and \<open>sb\<close> are the numbers of set bits of term \<open>i\<close> of
  \<open>A\<close> and term \<open>j\<close> of \<open>B\<close> and \<open>o\<close> is the number of positions below
  \<open>min (n_sites A) (n_sites B)\<close> set in both. So the entry is true (not zero) if and only if
  \<open>(sa * sb + o + 1) mod 2 = 1\<close>, that is, if and only if \<open>sa * sb + o\<close> is even.
\<close>

theorem MajoranaOp_commutes_termwise_entry:
  assumes "i < n_terms A" and "j < n_terms B"
    and "a = mrows (symp_matrix A) ! i" and "b = mrows (symp_matrix B) ! j"
    and "sa = card {l. l < length a \<and> a ! l}" and "sb = card {l. l < length b \<and> b ! l}"
    and "ov = card {l. l < min (n_sites A) (n_sites B) \<and> l < length a \<and> l < length b \<and> a ! l \<and> b ! l}"
  shows "MajoranaOp_commutes_termwise A B ! i ! j = (sa * sb + ov + 1) mod 2
       \<and> (MajoranaOp_commutes_termwise A B ! i ! j \<noteq> 0 \<longleftrightarrow> (sa * sb + ov + 1) mod 2 = 1)
       \<and> (MajoranaOp_commutes_termwise A B ! i ! j \<noteq> 0 \<longleftrightarrow> even (sa * sb + ov))"
proof -
  have i: "i < length (mrows (symp_matrix A))" and j: "j < length (mrows (symp_matrix B))"
    using assms(1,2) by (simp_all add: n_terms_def shape0_def)
  have s: "(if n_sites A \<noteq> n_sites B then min (n_sites A) (n_sites B) else n_sites A)
           = min (n_sites A) (n_sites B)" by simp
  have "MajoranaOp_commutes_termwise A B ! i ! j
        = (count_true a * count_true b
           + count_true (map2 (\<and>) (take (min (n_sites A) (n_sites B)) a) (take (min (n_sites A) (n_sites B)) b)) + 1) mod 2"
    unfolding MajoranaOp_commutes_termwise_def s Let_def using i j assms(3,4) by simp
  moreover have "count_true a = sa" "count_true b = sb"
    by (simp_all only: count_true_card assms(5,6))
  moreover have "count_true (map2 (\<and>) (take (min (n_sites A) (n_sites B)) a)
                    (take (min (n_sites A) (n_sites B)) b)) = ov"
    by (simp only: count_true_overlap assms(7))
  ultimately have e: "MajoranaOp_commutes_termwise A B ! i ! j = (sa * sb + ov + 1) mod 2"
    by simp
  show ?thesis unfolding e by presburger
qed

theorem MajoranaOp_commutes_termwise_entry_witness:
  "(0 :: nat) < n_terms \<lparr>symp_matrix = (2, [[True, False]]), coeff_vec = [1]\<rparr>
   \<and> MajoranaOp_commutes_termwise \<lparr>symp_matrix = (2, [[True, False]]), coeff_vec = [1]\<rparr>
        \<lparr>symp_matrix = (2, [[True, False]]), coeff_vec = [1]\<rparr> ! 0 ! 0
      = (card {l. l < length [True, False] \<and> [True, False] ! l}
         * card {l. l < length [True, False] \<and> [True, False] ! l}
         + card {l. l < min 2 2 \<and> l < length [True, False] \<and> l < length [True, False]
                    \<and> [True, False] ! l \<and> [True, False] ! l} + 1) mod 2"
proof -
  let ?A = "\<lparr>symp_matrix = (2, [[True, False]]), coeff_vec = [1]\<rparr>"
  have h: "0 < n_terms ?A" by (simp add: n_terms_def shape0_def mrows_def)
  have a: "[True, False] = mrows (symp_matrix ?A) ! 0" by (simp add: mrows_def)
  have n: "n_sites ?A = 2" by (simp add: n_sites_def ncols_def)
  show ?thesis
    using MajoranaOp_commutes_termwise_entry [OF h h a a refl refl refl] h unfolding n by blast
qed

text \<open>
  C9, as stated, at the empty array \<^verbatim>\<open>np.array([[]])\<close>, of shape \<open>(1, 0)\<close>, and the coefficient
  list \<open>[1]\<close>: the array has no entry but its length is 1, so the constructor does not take
  it for the identity; the operator has one term over 0 sites, whatever is declared of the
  phase factors.
\<close>

theorem MajoranaOp_empty_array_counterexample:
  "MajoranaOp exact_libm (NdArray2 (0, [[]])) [1] False
     = Inr \<lparr>symp_matrix = (0, [[]]), coeff_vec = [1]\<rparr>
   \<and> MajoranaOp exact_libm (NdArray2 (0, [[]])) [1] True
     = Inr \<lparr>symp_matrix = (0, [[]]), coeff_vec = [1]\<rparr>
   \<and> n_sites \<lparr>symp_matrix = (0, [[]]), coeff_vec = [1]\<rparr> = 0
   \<and> n_sites \<lparr>symp_matrix = (0, [[]]), coeff_vec = [1]\<rparr> \<noteq> 2"
  using c_mul_one [OF is_c128_1]
  by (simp add: MajoranaOp_def initalize_op_def shape0_def mrows_def ncols_def n_sites_def
      count_true_def)

text \<open>
  C9, amended. A \<^verbatim>\<open>MajoranaOp\<close> built from a NumPy array of length zero (a one-dimensional
  array without entries, or a two-dimensional array without rows, of any width) and one
  coefficient is the identity on two sites: the matrix is the single row \<open>[0, 0]\<close>, \<^verbatim>\<open>n_sites\<close>
  is 2 and \<^verbatim>\<open>n_terms\<close> is 1. With the phase factors declared included the coefficient is the
  one supplied; otherwise it is multiplied by \<^verbatim>\<open>(1j)**0\<close>, which is 1, and a \<^verbatim>\<open>complex128\<close>
  coefficient is unchanged.
\<close>

theorem MajoranaOp_empty_array_identity:
  "MajoranaOp m (NdArray1 []) [c] True = Inr \<lparr>symp_matrix = (2, [[False, False]]), coeff_vec = [c]\<rparr>
   \<and> MajoranaOp m (NdArray2 (w, [])) [c] True = Inr \<lparr>symp_matrix = (2, [[False, False]]), coeff_vec = [c]\<rparr>
   \<and> (is_c128 c \<longrightarrow>
        MajoranaOp m (NdArray1 []) [c] False = Inr \<lparr>symp_matrix = (2, [[False, False]]), coeff_vec = [c]\<rparr>
        \<and> MajoranaOp m (NdArray2 (w, [])) [c] False = Inr \<lparr>symp_matrix = (2, [[False, False]]), coeff_vec = [c]\<rparr>)
   \<and> n_sites \<lparr>symp_matrix = (2, [[False, False]]), coeff_vec = [c]\<rparr> = 2
   \<and> n_terms \<lparr>symp_matrix = (2, [[False, False]]), coeff_vec = [c]\<rparr> = 1
   \<and> np_cpow m \<i> (count_true [False, False] div 2) = 1"
  by (simp add: MajoranaOp_def initalize_op_def shape0_def mrows_def ncols_def n_sites_def
      n_terms_def count_true_def c_mul_one)

theorem MajoranaOp_empty_array_identity_witness:
  "is_c128 1
   \<and> MajoranaOp exact_libm (NdArray1 []) [1] False
       = Inr \<lparr>symp_matrix = (2, [[False, False]]), coeff_vec = [1]\<rparr>
   \<and> MajoranaOp exact_libm (NdArray2 (4, [])) [1] False
       = Inr \<lparr>symp_matrix = (2, [[False, False]]), coeff_vec = [1]\<rparr>"
  using MajoranaOp_empty_array_identity [of exact_libm 1 4] is_c128_1 by simp


section \<open>\<^verbatim>\<open>cleanup\<close>: rows with one bit-vector are merged and their coefficients added\<close>

lemma weights_Suc: "weights (Suc w) = push_bit w 1 # weights w"
  by (simp add: weights_def)

lemma row_key_horner: "row_key (length r) r = horner_sum of_bool 2 (rev r)"
proof (induction r)
  case Nil
  then show ?case by (simp add: row_key_def)
next
  case (Cons b r)
  have "row_key (length (b # r)) (b # r) = of_bool b * 2 ^ length r + row_key (length r) r"
    by (simp add: row_key_def weights_Suc)
  then show ?case using Cons by (simp add: horner_sum_append)
qed

lemma row_key_inj:
  assumes "length r1 = w" and "length r2 = w" and "w \<le> 64" and "row_key w r1 = row_key w r2"
  shows "r1 = r2"
proof -
  have h: "(horner_sum of_bool 2 (rev r1) :: 64 word) = horner_sum of_bool 2 (rev r2)"
    using assms row_key_horner [of r1] row_key_horner [of r2] by simp
  have "rev r1 = rev r2"
  proof (rule nth_equalityI)
    show "length (rev r1) = length (rev r2)" using assms by simp
  next
    fix n assume n: "n < length (rev r1)"
    have "bit (horner_sum of_bool 2 (rev r1) :: 64 word) n = bit (horner_sum of_bool 2 (rev r2) :: 64 word) n"
      using h by simp
    then show "rev r1 ! n = rev r2 ! n"
      using n assms by (simp add: bit_horner_sum_bit_word_iff)
  qed
  then show ?thesis by simp
qed

lemma butlast_cumsum: "butlast (a # cumsum_from a cnts) = starts a cnts"
  by (induction cnts arbitrary: a) simp_all

lemma row_summing_of_starts: "row_summing_of cnts = starts 0 cnts"
  by (simp only: row_summing_of_def butlast_cumsum)

lemma reduceat_Nil: "reduceat A [] = []"
  by (simp add: reduceat_def)

lemma reduceat_Cons:
  "reduceat A (s # idx) =
     (if idx \<noteq> [] then (if s < hd idx then np_add_reduce (take (hd idx - s) (drop s A)) else A ! s)
      else np_add_reduce (drop s A)) # reduceat A idx"
proof -
  have "reduceat A (s # idx) =
      (if 0 + 1 < length (s # idx)
               then (if (s # idx) ! 0 < (s # idx) ! (0 + 1)
                     then np_add_reduce (take ((s # idx) ! (0 + 1) - (s # idx) ! 0) (drop ((s # idx) ! 0) A))
                     else A ! ((s # idx) ! 0))
               else np_add_reduce (drop ((s # idx) ! 0) A))
      # map (\<lambda>i. if Suc i + 1 < length (s # idx)
               then (if (s # idx) ! Suc i < (s # idx) ! (Suc i + 1)
                     then np_add_reduce (take ((s # idx) ! (Suc i + 1) - (s # idx) ! Suc i) (drop ((s # idx) ! Suc i) A))
                     else A ! ((s # idx) ! Suc i))
               else np_add_reduce (drop ((s # idx) ! Suc i) A)) [0..<length idx]"
    unfolding reduceat_def by (simp add: map_upt_Suc del: upt_Suc)
  also have "\<dots> = (if idx \<noteq> [] then (if s < hd idx then np_add_reduce (take (hd idx - s) (drop s A)) else A ! s)
      else np_add_reduce (drop s A)) # reduceat A idx"
    unfolding reduceat_def by (cases idx) simp_all
  finally show ?thesis .
qed


lemma starts_Nil_iff: "starts a cnts = [] \<longleftrightarrow> cnts = []"
  by (cases cnts) simp_all

lemma hd_starts: "cnts \<noteq> [] \<Longrightarrow> hd (starts a cnts) = a"
  by (cases cnts) simp_all

lemma run_lengths_Nil_iff: "run_lengths xs = [] \<longleftrightarrow> xs = []"
  by (cases xs) simp_all

lemma takeWhile_zip_fst:
  "length xs = length zs \<Longrightarrow>
   takeWhile (\<lambda>u. fst u = x) (zip xs zs) = take (length (takeWhile (\<lambda>y. y = x) xs)) (zip xs zs)"
  by (induction xs zs rule: list_induct2) simp_all

lemma dropWhile_zip_fst:
  "length xs = length zs \<Longrightarrow>
   dropWhile (\<lambda>u. fst u = x) (zip xs zs)
   = zip (dropWhile (\<lambda>y. y = x) xs) (drop (length (takeWhile (\<lambda>y. y = x) xs)) zs)"
  by (induction xs zs rule: list_induct2) simp_all

lemma runs_by_index:
  assumes "a + length xs = length Y" and "length C = length Y"
  shows "map (\<lambda>i. Y ! i) (starts a (run_lengths xs))
           = map fst (merge_runs (zip xs (zip (drop a Y) (drop a C))))
       \<and> reduceat C (starts a (run_lengths xs))
           = map snd (merge_runs (zip xs (zip (drop a Y) (drop a C))))"
  using assms
proof (induction xs arbitrary: a rule: run_lengths.induct)
  case 1
  then show ?case by (simp add: reduceat_Nil)
next
  case (2 x xs)
  let ?run = "takeWhile (\<lambda>y. y = x) xs"
  let ?rest = "dropWhile (\<lambda>y. y = x) xs"
  let ?c = "Suc (length ?run)"
  have la: "a < length Y" "a < length C" using "2.prems" by simp_all
  have dY: "drop a Y = Y ! a # drop (Suc a) Y" using la by (simp add: Cons_nth_drop_Suc)
  have dC: "drop a C = C ! a # drop (Suc a) C" using la by (simp add: Cons_nth_drop_Suc)
  let ?zs = "zip (drop (Suc a) Y) (drop (Suc a) C)"
  have lz: "length xs = length ?zs" using "2.prems" by simp
  have lrr: "length ?run + length ?rest = length xs"
    by (metis length_append takeWhile_dropWhile_id)
  have ih: "map (\<lambda>i. Y ! i) (starts (a + ?c) (run_lengths ?rest))
           = map fst (merge_runs (zip ?rest (zip (drop (a + ?c) Y) (drop (a + ?c) C))))
       \<and> reduceat C (starts (a + ?c) (run_lengths ?rest))
           = map snd (merge_runs (zip ?rest (zip (drop (a + ?c) Y) (drop (a + ?c) C))))"
    by (rule "2.IH") (use "2.prems" lrr in simp_all)
  have dw: "dropWhile (\<lambda>u. fst u = x) (zip xs ?zs)
            = zip ?rest (zip (drop (a + ?c) Y) (drop (a + ?c) C))"
    by (simp add: dropWhile_zip_fst [OF lz] drop_zip add.commute)
  have tw: "map (\<lambda>u. snd (snd u)) (takeWhile (\<lambda>u. fst u = x) (zip xs ?zs))
            = take (length ?run) (drop (Suc a) C)"
  proof -
    have "map (\<lambda>u. snd (snd u)) (take (length ?run) (zip xs ?zs))
          = take (length ?run) (map (\<lambda>u. snd (snd u)) (zip xs ?zs))" by (simp add: take_map)
    also have "map (\<lambda>u. snd (snd u)) (zip xs ?zs) = drop (Suc a) C"
      using "2.prems" by (simp add: map_snd_zip flip: map_map comp_def [of snd snd])
    finally show ?thesis by (simp add: takeWhile_zip_fst [OF lz])
  qed
  have seg: "(if starts (a + ?c) (run_lengths ?rest) \<noteq> []
              then (if a < hd (starts (a + ?c) (run_lengths ?rest))
                    then np_add_reduce (take (hd (starts (a + ?c) (run_lengths ?rest)) - a) (drop a C))
                    else C ! a)
              else np_add_reduce (drop a C))
             = np_add_reduce (C ! a # take (length ?run) (drop (Suc a) C))"
  proof (cases "?rest = []")
    case True
    have "length ?run = length xs" using lrr unfolding True by simp
    then have "take (length ?run) (drop (Suc a) C) = drop (Suc a) C" using "2.prems" by simp
    then show ?thesis using True dC by (simp add: starts_Nil_iff run_lengths_Nil_iff)
  next
    case False
    then have ne: "run_lengths ?rest \<noteq> []" by (simp add: run_lengths_Nil_iff)
    have "take ?c (drop a C) = C ! a # take (length ?run) (drop (Suc a) C)"
      by (subst dC) simp
    then show ?thesis using ne by (simp add: starts_Nil_iff hd_starts)
  qed
  have A: "starts a (run_lengths (x # xs)) = a # starts (a + ?c) (run_lengths ?rest)" by simp
  have "merge_runs (zip (x # xs) (zip (Y ! a # drop (Suc a) Y) (C ! a # drop (Suc a) C)))
        = (Y ! a, np_add_reduce (C ! a # take (length ?run) (drop (Suc a) C)))
          # merge_runs (zip ?rest (zip (drop (a + ?c) Y) (drop (a + ?c) C)))"
    by (simp add: dw tw)
  then have B: "merge_runs (zip (x # xs) (zip (drop a Y) (drop a C)))
        = (Y ! a, np_add_reduce (C ! a # take (length ?run) (drop (Suc a) C)))
          # merge_runs (zip ?rest (zip (drop (a + ?c) Y) (drop (a + ?c) C)))"
    using dY dC by simp
  have Cc: "reduceat C (a # starts (a + ?c) (run_lengths ?rest))
        = (np_add_reduce (C ! a # take (length ?run) (drop (Suc a) C)))
          # reduceat C (starts (a + ?c) (run_lengths ?rest))"
    by (simp only: reduceat_Cons seg)
  show ?case unfolding A B Cc using ih by simp
qed

lemma dropWhile_sorted_keys:
  assumes "sorted (map h (t # ts))" and "inj h'" and "\<And>u. h u = h' (fst u)"
  shows "\<forall>u\<in>set (dropWhile (\<lambda>u. fst u = fst t) ts). fst u \<noteq> fst t"
proof (cases "dropWhile (\<lambda>u. fst u = fst t) ts")
  case Nil
  show ?thesis unfolding Nil by simp
next
  case (Cons d ds)
  let ?n = "length (takeWhile (\<lambda>u. fst u = fst t) ts)"
  have dd: "drop ?n ts = d # ds" using Cons by (simp add: dropWhile_eq_drop)
  have "\<not> (\<lambda>u. fst u = fst t) (hd (dropWhile (\<lambda>u. fst u = fst t) ts))"
    by (rule hd_dropWhile) (simp add: Cons)
  then have d: "fst d \<noteq> fst t" unfolding Cons by simp
  have sm: "sorted (map h ts)" and ge: "\<forall>u\<in>set ts. h t \<le> h u" using assms(1) by auto
  from sm have "sorted (drop ?n (map h ts))" by (rule sorted_wrt_drop)
  then have sd: "sorted (map h (d # ds))" using dd by (simp add: drop_map)
  have "d \<in> set (drop ?n ts)" unfolding dd by simp
  then have "d \<in> set ts" by (rule in_set_dropD)
  then have "h t \<le> h d" using ge by simp
  moreover have "h t \<noteq> h d"
  proof -
    have "h' (fst t) \<noteq> h' (fst d)" using d assms(2) by (simp add: inj_eq)
    then show ?thesis by (simp add: assms(3))
  qed
  ultimately have lt: "h t < h d" by simp
  show ?thesis
  proof
    fix u assume "u \<in> set (dropWhile (\<lambda>u. fst u = fst t) ts)"
    then have "u \<in> set (d # ds)" using Cons by simp
    then have "h d \<le> h u" using sd by auto
    then have "h t < h u" using lt by simp
    then have "h' (fst t) \<noteq> h' (fst u)" by (simp add: assms(3))
    then show "fst u \<noteq> fst t" by auto
  qed
qed

lemma inj_sint: "inj (sint :: 64 word \<Rightarrow> int)"
  by (rule injI) (metis signed_word_eqI)

lemma zip_as_map_upt:
  "length rs = length cs \<Longrightarrow> zip rs cs = map (\<lambda>i. (rs ! i, cs ! i)) [0..<length rs]"
  by (rule nth_equalityI) simp_all

lemma wf_opI:
  assumes "\<forall>r\<in>set rs. length r = w" and "length cs = length rs"
  shows "wf_op \<lparr>symp_matrix = (w, rs), coeff_vec = cs\<rparr>"
  using assms by (simp add: wf_op_def wf_matrix_def ncols_def mrows_def list_all_iff n_terms_def shape0_def)

lemma mask_lengths:
  "length xs = length msk \<Longrightarrow> length (filter snd (zip xs msk)) = length (filter (\<lambda>b. b) msk)"
  by (induction xs msk rule: list_induct2) simp_all

lemma mask_zip:
  "length rs = length cs \<Longrightarrow>
   zip (map fst (filter snd (zip rs (map P cs)))) (map fst (filter snd (zip cs (map P cs))))
   = filter (\<lambda>p. P (snd p)) (zip rs cs)"
  by (induction rs cs rule: list_induct2) simp_all


end
